theory Spec2Isabelle
  imports Complex_Main
begin

section \<open>Strings and paths\<close>

text \<open>
  JavaScript's \<^verbatim>\<open>s.includes(sub)\<close>: does \<open>sub\<close> occur in \<open>s\<close> as a contiguous run
  of characters. \<open>startsWith\<close> compares at the head, \<open>str_includes\<close> tries every position.
\<close>

fun startsWith :: "string \<Rightarrow> string \<Rightarrow> bool" where
  "startsWith s [] = True"
| "startsWith [] (c # cs) = False"
| "startsWith (x # xs) (c # cs) = (x = c \<and> startsWith xs cs)"

fun str_includes :: "string \<Rightarrow> string \<Rightarrow> bool" where
  "str_includes [] sub = (sub = [])"
| "str_includes (x # xs) sub = (startsWith (x # xs) sub \<or> str_includes xs sub)"

text \<open>
  A file path is kept the way \<^verbatim>\<open>path.join(dir, name)\<close> forms it: the directory and the
  base name. The three directories of the run are the constants of
  \<^verbatim>\<open>helpers/test-runner.ts\<close> (\<^verbatim>\<open>path.resolve\<close> relative to the working directory) and the
  cache directory of \<^verbatim>\<open>main\<close>.
\<close>

type_synonym path = "string \<times> string"

definition path_join :: "string \<Rightarrow> string \<Rightarrow> path" where
  "path_join d n = (d, n)"

definition SCREENSHOT_DIR :: string where
  "SCREENSHOT_DIR = ''screenshots''"

definition BASELINES_DIR :: string where
  "BASELINES_DIR = ''baselines''"

definition cacheDir :: string where
  "cacheDir = ''.cache/cfe-test''"

text \<open>
  \<^verbatim>\<open>VISUAL_DIFF_THRESHOLD = 0.10\<close>. JavaScript numbers are doubles; here ratios are
  rationals. For a ratio of two pixel counts of a screenshot the comparison with the
  threshold comes out the same: one tenth rounds to the double of the literal, and a
  ratio above one tenth is above it by far more than the rounding.
\<close>

definition VISUAL_DIFF_THRESHOLD :: rat where
  "VISUAL_DIFF_THRESHOLD = 1 / 10"

section \<open>Images, file contents and the file system\<close>

type_synonym pixel = "nat \<times> nat \<times> nat \<times> nat"

record image =
  width :: nat
  height :: nat
  data :: "pixel list"

datatype content = PNG image | Blob string

datatype error = ENOENT | EACCES | ENOTDIR | EEXIST | PngDecodeError | TypeError | ExternalError

text \<open>
  The file system as the code uses it. A path of the run (\<open>screenshots\<close>, \<open>baselines\<close>,
  the cache directory) is absent, a directory or a plain file; a directory holds its
  entries by base name. Every call that changes the file system can throw. What decides
  it is part of the state: whether a directory accepts writes of its entries (\<open>writable\<close>:
  its permissions allow them and its volume is neither read-only nor full), and whether
  the parent of a path accepts the creation and removal of that path (\<open>parent_writable\<close>).
  A refused change is reported as \<open>EACCES\<close> whatever its cause, a missing directory as
  \<open>ENOENT\<close>, a plain file where a directory is needed as \<open>ENOTDIR\<close> or \<open>EEXIST\<close>. Reading
  is not restricted. A directory does not change what it accepts in the middle of a run.
\<close>

record directory =
  entries :: "string \<rightharpoonup> content"
  writable :: bool

datatype node = Dir directory | File content

record filesystem =
  nodes :: "string \<rightharpoonup> node"
  parent_writable :: "string \<Rightarrow> bool"

text \<open>\<^verbatim>\<open>fs.existsSync\<close> of a directory path is true of a plain file at that path too.\<close>

definition existsSync :: "filesystem \<Rightarrow> string \<Rightarrow> bool" where
  "existsSync fs d = (nodes fs d \<noteq> None)"

definition existsSync_file :: "filesystem \<Rightarrow> path \<Rightarrow> bool" where
  "existsSync_file fs p =
     (case nodes fs (fst p) of
        Some (Dir dr) \<Rightarrow> entries dr (snd p) \<noteq> None
      | _ \<Rightarrow> False)"

definition readFileSync :: "filesystem \<Rightarrow> path \<Rightarrow> error + content" where
  "readFileSync fs p =
     (case nodes fs (fst p) of
        None \<Rightarrow> Inl ENOENT
      | Some (File _) \<Rightarrow> Inl ENOTDIR
      | Some (Dir dr) \<Rightarrow>
          (case entries dr (snd p) of None \<Rightarrow> Inl ENOENT | Some c \<Rightarrow> Inr c))"

definition writeFileSync :: "filesystem \<Rightarrow> path \<Rightarrow> content \<Rightarrow> error + filesystem" where
  "writeFileSync fs p c =
     (case nodes fs (fst p) of
        None \<Rightarrow> Inl ENOENT
      | Some (File _) \<Rightarrow> Inl ENOTDIR
      | Some (Dir dr) \<Rightarrow>
          if writable dr
          then Inr (fs\<lparr>nodes := (nodes fs)(fst p \<mapsto> Dir (dr\<lparr>entries := (entries dr)(snd p \<mapsto> c)\<rparr>))\<rparr>)
          else Inl EACCES)"

text \<open>
  \<^verbatim>\<open>fs.mkdirSync(d, { recursive: true })\<close>: no effect on an existing directory; a plain
  file in the way and a parent that refuses the creation throw. A new directory is empty
  and writable.
\<close>

definition mkdirSync :: "filesystem \<Rightarrow> string \<Rightarrow> error + filesystem" where
  "mkdirSync fs d =
     (case nodes fs d of
        Some (Dir _) \<Rightarrow> Inr fs
      | Some (File _) \<Rightarrow> Inl EEXIST
      | None \<Rightarrow>
          if parent_writable fs d
          then Inr (fs\<lparr>nodes := (nodes fs)(d \<mapsto> Dir \<lparr>entries = Map.empty, writable = True\<rparr>)\<rparr>)
          else Inl EACCES)"

text \<open>
  \<^verbatim>\<open>fs.rmSync(d, { recursive: true })\<close>, without \<^verbatim>\<open>force\<close>: a missing path throws, and so
  do a parent that refuses the removal and a non-empty directory that refuses the removal
  of its entries.
\<close>

definition rmSync :: "filesystem \<Rightarrow> string \<Rightarrow> error + filesystem" where
  "rmSync fs d =
     (case nodes fs d of
        None \<Rightarrow> Inl ENOENT
      | Some n \<Rightarrow>
          if \<not> parent_writable fs d then Inl EACCES
          else (case n of
                  File _ \<Rightarrow> Inr (fs\<lparr>nodes := (nodes fs)(d := None)\<rparr>)
                | Dir dr \<Rightarrow>
                    if entries dr = Map.empty \<or> writable dr
                    then Inr (fs\<lparr>nodes := (nodes fs)(d := None)\<rparr>)
                    else Inl EACCES))"

definition copyFileSync :: "filesystem \<Rightarrow> path \<Rightarrow> path \<Rightarrow> error + filesystem" where
  "copyFileSync fs src dest =
     (case readFileSync fs src of
        Inl e \<Rightarrow> Inl e
      | Inr c \<Rightarrow> writeFileSync fs dest c)"

text \<open>
  \<^verbatim>\<open>PNG.sync.read\<close>: a file decodes when it holds an image with positive dimensions and
  one pixel per position; anything else throws.
\<close>

definition PNG_sync_read :: "content \<Rightarrow> error + image" where
  "PNG_sync_read c =
     (case c of
        PNG img \<Rightarrow>
          (if 0 < width img \<and> 0 < height img \<and> length (data img) = width img * height img
           then Inr img else Inl PngDecodeError)
      | Blob _ \<Rightarrow> Inl PngDecodeError)"

definition PNG_sync_write :: "image \<Rightarrow> content" where
  "PNG_sync_write img = PNG img"

section \<open>The pixel comparison\<close>

text \<open>
  Modelled from the spec: \<^verbatim>\<open>pixelmatch\<close>, the third-party library function that
  \<^verbatim>\<open>compareWithBaseline\<close> calls; its source is not part of the repository. The spec
  (4.1): "perform a per-pixel color-distance comparison with a fixed per-pixel tolerance
  and count pixels exceeding tolerance", and "produce a diff image highlighting differing
  pixels". The colour distance is the sum of the channel differences, the tolerance the
  given fraction of its maximum; a differing pixel is drawn in \<open>diffColor\<close>, any other as
  a grey rendering of the first image's pixel.
\<close>

definition absdiff :: "nat \<Rightarrow> nat \<Rightarrow> nat" where
  "absdiff a b = (if a \<le> b then b - a else a - b)"

fun colorDelta :: "pixel \<Rightarrow> pixel \<Rightarrow> nat" where
  "colorDelta (r1, g1, b1, a1) (r2, g2, b2, a2) =
     absdiff r1 r2 + absdiff g1 g2 + absdiff b1 b2 + absdiff a1 a2"

definition pixelDiffers :: "rat \<Rightarrow> pixel \<Rightarrow> pixel \<Rightarrow> bool" where
  "pixelDiffers threshold p q = (threshold * 1020 < of_nat (colorDelta p q))"

definition diffColor :: pixel where
  "diffColor = (255, 0, 0, 255)"

fun drawGrayPixel :: "pixel \<Rightarrow> pixel" where
  "drawGrayPixel (r, g, b, a) =
     (let v = 255 - (255 - min 255 ((r + g + b) div 3)) div 10 in (v, v, v, 255))"

definition pixelmatch ::
  "pixel list \<Rightarrow> pixel list \<Rightarrow> nat \<Rightarrow> nat \<Rightarrow> rat \<Rightarrow> nat \<times> pixel list" where
  "pixelmatch img1 img2 w h threshold =
     (length (filter (\<lambda>(p, q). pixelDiffers threshold p q) (zip img1 img2)),
      map (\<lambda>(p, q). if pixelDiffers threshold p q then diffColor else drawGrayPixel p)
        (zip img1 img2))"

section \<open>Comparing with the baseline, saving the baseline\<close>

record ComparisonResult =
  mismatchRatio :: rat
  diffSaved :: bool
  skipped :: bool

text \<open>
  \<^verbatim>\<open>compareWithBaseline\<close> of \<^verbatim>\<open>helpers/screenshot.ts\<close>. It returns the result and the file
  system after the call; a throw (a missing or undecodable file, a directory that is
  missing or refuses the diff) is \<open>Inl\<close> and leaves the file system as it was.
\<close>

definition compareWithBaseline ::
  "filesystem \<Rightarrow> path \<Rightarrow> string \<Rightarrow> string \<Rightarrow> path \<Rightarrow> error + (ComparisonResult \<times> filesystem)" where
  "compareWithBaseline fs currentPath baselineName baselinesDir diffPath =
     (let baselinePath = path_join baselinesDir (baselineName @ ''.png'') in
      if \<not> existsSync_file fs baselinePath
      then Inr (\<lparr>mismatchRatio = 0, diffSaved = False, skipped = True\<rparr>, fs)
      else
        (case readFileSync fs currentPath of Inl e \<Rightarrow> Inl e | Inr c1 \<Rightarrow>
        (case PNG_sync_read c1 of Inl e \<Rightarrow> Inl e | Inr img1 \<Rightarrow>
        (case readFileSync fs baselinePath of Inl e \<Rightarrow> Inl e | Inr c2 \<Rightarrow>
        (case PNG_sync_read c2 of Inl e \<Rightarrow> Inl e | Inr img2 \<Rightarrow>
        if width img1 \<noteq> width img2 \<or> height img1 \<noteq> height img2
        then Inr (\<lparr>mismatchRatio = 1, diffSaved = False, skipped = False\<rparr>, fs)
        else
          (let w = width img1; h = height img1;
               (numDiffPixels, diffData) = pixelmatch (data img1) (data img2) w h (1 / 10);
               diff = \<lparr>width = w, height = h, data = diffData\<rparr>;
               ratio = of_nat numDiffPixels / of_nat (w * h)
           in (case writeFileSync fs diffPath (PNG_sync_write diff) of
                 Inl e \<Rightarrow> Inl e
               | Inr fs' \<Rightarrow>
                   Inr (\<lparr>mismatchRatio = ratio, diffSaved = True, skipped = False\<rparr>, fs'))))))))"

text \<open>
  \<^verbatim>\<open>saveBaseline\<close>: the directory is created when nothing exists at its path, then the
  screenshot is copied over the baseline. Either step can throw; the directory stays
  created when the copy throws.
\<close>

definition saveBaseline ::
  "filesystem \<Rightarrow> path \<Rightarrow> string \<Rightarrow> string \<Rightarrow> (error + path) \<times> filesystem" where
  "saveBaseline fs screenshotPath baselineName baselinesDir =
     (case (if \<not> existsSync fs baselinesDir then mkdirSync fs baselinesDir else Inr fs) of
        Inl e \<Rightarrow> (Inl e, fs)
      | Inr fs1 \<Rightarrow>
          (let dest = path_join baselinesDir (baselineName @ ''.png'')
           in case copyFileSync fs1 screenshotPath dest of
                Inl e \<Rightarrow> (Inl e, fs1)
              | Inr fs2 \<Rightarrow> (Inr dest, fs2)))"

text \<open>
  Whether a file can be written into the directory at \<open>d\<close>, the directory being created
  first when nothing is at that path: this is what \<^verbatim>\<open>saveBaseline\<close> needs of its directory.
\<close>

definition accepts_file :: "filesystem \<Rightarrow> string \<Rightarrow> bool" where
  "accepts_file fs d =
     (case nodes fs d of
        None \<Rightarrow> parent_writable fs d
      | Some (Dir dr) \<Rightarrow> writable dr
      | Some (File _) \<Rightarrow> False)"

section \<open>The browser and the external collaborators\<close>

text \<open>
  A page handle is a number; the browser is the ordered list of open pages
  (\<^verbatim>\<open>stagehand.context.pages()\<close>) and the URL each handle reports (\<^verbatim>\<open>p.url()\<close>).
\<close>

type_synonym page = nat

record browser_state =
  pages :: "page list"
  url :: "page \<Rightarrow> string"

text \<open>
  What the run consumes from the automation library. Each call either throws
  (\<open>Inl\<close>) or returns.
  \<^item> \<open>act n b\<close>: \<^verbatim>\<open>stagehand.act("Click the GitHub link")\<close> invoked on browser \<open>b\<close> after
    \<open>n\<close> earlier invocations, followed by the waits of \<^verbatim>\<open>actAndAssert\<close>; the result is
    the browser at the moment the page list is read.
  \<^item> \<open>close_page p b\<close>: \<^verbatim>\<open>p.close()\<close>.
  \<^item> \<open>goto b\<close>: \<^verbatim>\<open>ctx.page.goto("https://cfe.jp/")\<close> and the wait for \<^verbatim>\<open>networkidle\<close>.
  \<^item> \<open>page_screenshot p fullPage b\<close>: the image \<^verbatim>\<open>p.screenshot\<close> captures.
  These calls act on the browser. Of the file system the library is taken to write its
  screenshots (below) and its own cache directory only; the cache writes are left out,
  since between the clearing of the cache and the retry the only call is \<open>goto\<close>.
\<close>

record env =
  act :: "nat \<Rightarrow> browser_state \<Rightarrow> error + browser_state"
  close_page :: "page \<Rightarrow> browser_state \<Rightarrow> error + browser_state"
  goto :: "browser_state \<Rightarrow> error + browser_state"
  page_screenshot :: "page \<Rightarrow> bool \<Rightarrow> browser_state \<Rightarrow> error + image"

datatype call = Act | Close page | Goto | WaitForLoadState page | Screenshot page bool

record TestResult =
  step :: string
  passed :: bool
  screenshot :: path

text \<open>
  The state of a run: the file system, the browser, the calls made to the library so
  far (in order) and the \<^verbatim>\<open>results\<close> array.
\<close>

record world =
  files :: filesystem
  browser :: browser_state
  calls :: "call list"
  results :: "TestResult list"

text \<open>
  \<^verbatim>\<open>p.screenshot({ path, fullPage })\<close>: the library captures and writes the file, creating
  the directory when it is missing; the capture and the write can both throw. A throw
  leaves the file system as it was.
\<close>

definition write_capture :: "filesystem \<Rightarrow> path \<Rightarrow> image \<Rightarrow> error + filesystem" where
  "write_capture fs p img =
     (case mkdirSync fs (fst p) of
        Inl err \<Rightarrow> Inl err
      | Inr fs1 \<Rightarrow> writeFileSync fs1 p (PNG img))"

definition page_screenshot_to ::
  "env \<Rightarrow> page \<Rightarrow> bool \<Rightarrow> path \<Rightarrow> world \<Rightarrow> (error + unit) \<times> world" where
  "page_screenshot_to e p fullPage pth w =
     (let w1 = w\<lparr>calls := calls w @ [Screenshot p fullPage]\<rparr> in
      case page_screenshot e p fullPage (browser w) of
        Inl err \<Rightarrow> (Inl err, w1)
      | Inr img \<Rightarrow>
          (case write_capture (files w1) pth img of
             Inl err \<Rightarrow> (Inl err, w1)
           | Inr fs \<Rightarrow> (Inr (), w1\<lparr>files := fs\<rparr>)))"

text \<open>
  The helper made by \<^verbatim>\<open>createScreenshotHelper(page, dir)\<close>: a full-page capture, and a
  viewport capture when that throws.
\<close>

definition ctx_screenshot ::
  "env \<Rightarrow> string \<Rightarrow> string \<Rightarrow> page \<Rightarrow> world \<Rightarrow> (error + path) \<times> world" where
  "ctx_screenshot e dir name targetPage w =
     (let filePath = path_join dir (name @ ''.png'') in
      case page_screenshot_to e targetPage True filePath w of
        (Inr _, w1) \<Rightarrow> (Inr filePath, w1)
      | (Inl _, w1) \<Rightarrow>
          (case page_screenshot_to e targetPage False filePath w1 of
             (Inr _, w2) \<Rightarrow> (Inr filePath, w2)
           | (Inl err, w2) \<Rightarrow> (Inl err, w2)))"

section \<open>Test 5: the attempt\<close>

record attempt =
  success :: bool
  githubPage :: "page option"
  allPages :: "page list"

text \<open>
  \<^verbatim>\<open>actAndAssert\<close> of the refactored \<^verbatim>\<open>main\<close>. The polling loop between the action and the
  reading of the page list only reads the number of pages and sleeps (it stops at its
  deadline at the latest); nothing it computes is used afterwards, so it is part of the
  \<open>act\<close> transition. \<^verbatim>\<open>!!githubPage\<close> is true exactly when \<^verbatim>\<open>find\<close> found a page.
\<close>

definition actAndAssert :: "env \<Rightarrow> page \<Rightarrow> world \<Rightarrow> (error + attempt) \<times> world" where
  "actAndAssert e ctx_page w =
     (let w1 = w\<lparr>calls := calls w @ [Act]\<rparr> in
      case act e (count_list (calls w) Act) (browser w) of
        Inl err \<Rightarrow> (Inl err, w1)
      | Inr b \<Rightarrow>
          (let found = find (\<lambda>p. str_includes (url b p) ''github.com'') (pages b);
               navigatedInPlace = str_includes (url b ctx_page) ''github.com''
           in (Inr \<lparr>success = (found \<noteq> None \<or> navigatedInPlace),
                    githubPage = (case found of
                                    Some p \<Rightarrow> Some p
                                  | None \<Rightarrow> if navigatedInPlace then Some ctx_page else None),
                    allPages = pages b\<rparr>,
               w1\<lparr>browser := b\<rparr>)))"

text \<open>
  \<^verbatim>\<open>actAndAssert\<close> of the monolithic \<^verbatim>\<open>e2e-cfe.ts\<close>: the action, a fixed wait, and success
  when some open page's URL contains the target.
\<close>

definition actAndAssert_mono :: "env \<Rightarrow> world \<Rightarrow> (error + attempt) \<times> world" where
  "actAndAssert_mono e w =
     (let w1 = w\<lparr>calls := calls w @ [Act]\<rparr> in
      case act e (count_list (calls w) Act) (browser w) of
        Inl err \<Rightarrow> (Inl err, w1)
      | Inr b \<Rightarrow>
          (let found = find (\<lambda>p. str_includes (url b p) ''github.com'') (pages b)
           in (Inr \<lparr>success = (found \<noteq> None), githubPage = found, allPages = pages b\<rparr>,
               w1\<lparr>browser := b\<rparr>)))"

section \<open>Test 5: self-heal\<close>

text \<open>\<^verbatim>\<open>for (const ep of extraPages) { try { await ep.close(); } catch {} }\<close>\<close>

fun closePages :: "env \<Rightarrow> page list \<Rightarrow> world \<Rightarrow> world" where
  "closePages e [] w = w"
| "closePages e (ep # eps) w =
     (let w1 = w\<lparr>calls := calls w @ [Close ep]\<rparr> in
      closePages e eps
        (case close_page e ep (browser w1) of
           Inl _ \<Rightarrow> w1
         | Inr b \<Rightarrow> w1\<lparr>browser := b\<rparr>))"

text \<open>
  \<^verbatim>\<open>if (fs.existsSync(cacheDir)) { fs.rmSync(cacheDir, ...); fs.mkdirSync(cacheDir, ...); }\<close>
\<close>

definition clearCache :: "filesystem \<Rightarrow> (error + unit) \<times> filesystem" where
  "clearCache fs =
     (if existsSync fs cacheDir
      then (case rmSync fs cacheDir of
              Inl err \<Rightarrow> (Inl err, fs)
            | Inr fs1 \<Rightarrow>
                (case mkdirSync fs1 cacheDir of
                   Inl err \<Rightarrow> (Inl err, fs1)
                 | Inr fs2 \<Rightarrow> (Inr (), fs2)))
      else (Inr (), fs))"

definition page_goto :: "env \<Rightarrow> world \<Rightarrow> (error + unit) \<times> world" where
  "page_goto e w =
     (let w1 = w\<lparr>calls := calls w @ [Goto]\<rparr> in
      case goto e (browser w) of
        Inl err \<Rightarrow> (Inl err, w1)
      | Inr b \<Rightarrow> (Inr (), w1\<lparr>browser := b\<rparr>))"

text \<open>
  The self-heal steps before the retry: close the extra pages, clear the cache, reload
  the page.
\<close>

definition selfHealPrepare ::
  "env \<Rightarrow> page \<Rightarrow> attempt \<Rightarrow> world \<Rightarrow> (error + unit) \<times> world" where
  "selfHealPrepare e ctx_page a w =
     (let extraPages = filter (\<lambda>p. p \<noteq> ctx_page) (allPages a);
          w1 = closePages e extraPages w
      in case clearCache (files w1) of
           (Inl err, fs) \<Rightarrow> (Inl err, w1\<lparr>files := fs\<rparr>)
         | (Inr _, fs) \<Rightarrow> page_goto e (w1\<lparr>files := fs\<rparr>))"

text \<open>The first attempt and, when it failed, the self-heal cycle with its one retry.\<close>

definition attemptWithSelfHeal ::
  "env \<Rightarrow> page \<Rightarrow> world \<Rightarrow> (error + attempt) \<times> world" where
  "attemptWithSelfHeal e ctx_page w =
     (case actAndAssert e ctx_page w of
        (Inl err, w1) \<Rightarrow> (Inl err, w1)
      | (Inr a, w1) \<Rightarrow>
          if \<not> success a
          then (case selfHealPrepare e ctx_page a w1 of
                  (Inl err, w2) \<Rightarrow> (Inl err, w2)
                | (Inr _, w2) \<Rightarrow> actAndAssert e ctx_page w2)
          else (Inr a, w1))"

section \<open>Test 5: the orchestrator\<close>

definition comparisonSsPath :: path where
  "comparisonSsPath = path_join SCREENSHOT_DIR ''05a-before-click.png''"

definition diffPath05 :: path where
  "diffPath05 = path_join SCREENSHOT_DIR ''05a-diff.png''"

definition newTabPath :: path where
  "newTabPath = path_join SCREENSHOT_DIR ''05b-new-tab.png''"

definition test5_step :: string where
  "test5_step = ''Test 5: Click GitHub link''"

text \<open>
  The pre-action screenshot and its comparison with the baseline; the value is
  \<^verbatim>\<open>pageVisuallyBroken\<close>.
\<close>

definition visualCheck :: "env \<Rightarrow> page \<Rightarrow> world \<Rightarrow> (error + bool) \<times> world" where
  "visualCheck e ctx_page w =
     (case page_screenshot_to e ctx_page False comparisonSsPath w of
        (Inl err, w1) \<Rightarrow> (Inl err, w1)
      | (Inr _, w1) \<Rightarrow>
          (case compareWithBaseline (files w1) comparisonSsPath ''05a-before-click''
                  BASELINES_DIR diffPath05 of
             Inl err \<Rightarrow> (Inl err, w1)
           | Inr (comparison, fs') \<Rightarrow>
               (Inr (if skipped comparison then False
                     else VISUAL_DIFF_THRESHOLD < mismatchRatio comparison),
                w1\<lparr>files := fs'\<rparr>)))"

text \<open>
  The screenshot of the last open page when it is not the original page. On an empty
  page list \<^verbatim>\<open>newTab\<close> is \<^verbatim>\<open>undefined\<close>, which differs from \<^verbatim>\<open>ctx.page\<close>, and the call of
  \<^verbatim>\<open>newTab.waitForLoadState\<close> throws a TypeError. A rejection of \<^verbatim>\<open>waitForLoadState\<close> itself
  is swallowed.
\<close>

definition newTabScreenshot ::
  "env \<Rightarrow> page \<Rightarrow> attempt \<Rightarrow> world \<Rightarrow> (error + unit) \<times> world" where
  "newTabScreenshot e ctx_page a w =
     (case allPages a of
        [] \<Rightarrow> (Inl TypeError, w)
      | _ # _ \<Rightarrow>
          (let newTab = last (allPages a) in
           if newTab \<noteq> ctx_page
           then (case ctx_screenshot e SCREENSHOT_DIR ''05b-new-tab'' newTab
                        (w\<lparr>calls := calls w @ [WaitForLoadState newTab]\<rparr>) of
                   (Inl err, w1) \<Rightarrow> (Inl err, w1)
                 | (Inr _, w1) \<Rightarrow> (Inr (), w1))
           else (Inr (), w)))"

text \<open>
  The record of the step and, on a pass, the saving of the baseline. The record is pushed
  first: when \<^verbatim>\<open>saveBaseline\<close> throws, the pass is already in \<^verbatim>\<open>results\<close>. The log line
  before the record reads the URL of \<^verbatim>\<open>attempt.githubPage\<close>, which is a page whenever the
  attempt succeeded.
\<close>

definition recordOutcome :: "attempt \<Rightarrow> world \<Rightarrow> (error + unit) \<times> world" where
  "recordOutcome a w =
     (if success a
      then (let w1 = w\<lparr>results := results w @
                         [\<lparr>step = test5_step, passed = True, screenshot = newTabPath\<rparr>]\<rparr>
            in case saveBaseline (files w1) comparisonSsPath ''05a-before-click'' BASELINES_DIR of
                 (Inl err, fs) \<Rightarrow> (Inl err, w1\<lparr>files := fs\<rparr>)
               | (Inr _, fs) \<Rightarrow> (Inr (), w1\<lparr>files := fs\<rparr>))
      else (Inr (), w\<lparr>results := results w @
                         [\<lparr>step = test5_step, passed = False, screenshot = newTabPath\<rparr>]\<rparr>))"

text \<open>The body of the \<^verbatim>\<open>try\<close> block of \<^verbatim>\<open>main\<close> from Test 5 on.\<close>

definition test5 :: "env \<Rightarrow> page \<Rightarrow> world \<Rightarrow> (error + unit) \<times> world" where
  "test5 e ctx_page w =
     (case visualCheck e ctx_page w of
        (Inl err, w1) \<Rightarrow> (Inl err, w1)
      | (Inr pageVisuallyBroken, w1) \<Rightarrow>
          if pageVisuallyBroken
          then (Inr (), w1\<lparr>results := results w1 @
                              [\<lparr>step = test5_step, passed = False, screenshot = diffPath05\<rparr>]\<rparr>)
          else (case attemptWithSelfHeal e ctx_page w1 of
                  (Inl err, w2) \<Rightarrow> (Inl err, w2)
                | (Inr a, w2) \<Rightarrow>
                    (case newTabScreenshot e ctx_page a w2 of
                       (Inl err, w3) \<Rightarrow> (Inl err, w3)
                     | (Inr _, w3) \<Rightarrow> recordOutcome a w3)))"

text \<open>
  \<^verbatim>\<open>main\<close> from Test 5 on, with its \<^verbatim>\<open>catch\<close>: a throw is answered by an attempt at a crash
  screenshot, whose own failure is swallowed. The value says whether the run crashed.
\<close>

definition main :: "env \<Rightarrow> page \<Rightarrow> world \<Rightarrow> error option \<times> world" where
  "main e ctx_page w =
     (case test5 e ctx_page w of
        (Inr _, w1) \<Rightarrow> (None, w1)
      | (Inl err, w1) \<Rightarrow>
          (Some err,
           snd (page_screenshot_to e ctx_page True
                  (path_join SCREENSHOT_DIR ''error-crash.png'') w1)))"

text \<open>The number of invocations of the action among the calls made so far.\<close>

abbreviation acts :: "world \<Rightarrow> nat" where
  "acts w \<equiv> count_list (calls w) Act"

section \<open>Scripted runs\<close>

text \<open>
  Concrete images, browser states, scripted collaborators and starting states on which
  the theorems below are exercised. The images are ten pixels large.
\<close>

definition black :: pixel where
  "black = (0, 0, 0, 255)"

definition white :: pixel where
  "white = (255, 255, 255, 255)"

definition img_base :: image where
  "img_base = \<lparr>width = 10, height = 1,
     data = [black, black, black, black, black, black, black, black, black, black]\<rparr>"

definition img_one :: image where
  "img_one = \<lparr>width = 10, height = 1,
     data = [white, black, black, black, black, black, black, black, black, black]\<rparr>"

definition img_two :: image where
  "img_two = \<lparr>width = 10, height = 1,
     data = [white, white, black, black, black, black, black, black, black, black]\<rparr>"

definition img_tall :: image where
  "img_tall = \<lparr>width = 5, height = 2,
     data = [black, black, black, black, black, black, black, black, black, black]\<rparr>"

text \<open>The original page alone; a new tab on the target; a new tab elsewhere; the original
  page navigated to the target in place.\<close>

definition page_cfe :: browser_state where
  "page_cfe = \<lparr>pages = [0], url = (\<lambda>p. ''https://cfe.jp/'')\<rparr>"

definition tab_github :: browser_state where
  "tab_github = \<lparr>pages = [0, 1],
     url = (\<lambda>p. if p = 1 then ''https://github.com/uzulla'' else ''https://cfe.jp/'')\<rparr>"

definition tab_wrong :: browser_state where
  "tab_wrong = \<lparr>pages = [0, 1],
     url = (\<lambda>p. if p = 1 then ''https://www.slideshare.net/uzulla'' else ''https://cfe.jp/'')\<rparr>"

definition inplace_github :: browser_state where
  "inplace_github = \<lparr>pages = [0], url = (\<lambda>p. ''https://github.com/uzulla'')\<rparr>"

text \<open>
  A scripted library: every action ends in browser state \<open>b\<close>, closing removes the page,
  the reload keeps the state, every capture gives \<open>img\<close>.
\<close>

definition script_env :: "browser_state \<Rightarrow> image \<Rightarrow> env" where
  "script_env b img =
     \<lparr>act = (\<lambda>n s. Inr b),
      close_page = (\<lambda>p s. Inr (s\<lparr>pages := removeAll p (pages s)\<rparr>)),
      goto = (\<lambda>s. Inr s),
      page_screenshot = (\<lambda>p fullPage s. Inr img)\<rparr>"


text \<open>
  Starting states, all with an empty, writable screenshots directory and parents that
  accept new directories: a first run (no baselines directory), a later run (a baseline
  of \<open>img_base\<close>), a first run with a filled cache directory, and a first run whose
  baselines directory is read-only.
\<close>

definition empty_dir :: node where
  "empty_dir = Dir \<lparr>entries = Map.empty, writable = True\<rparr>"

definition open_fs :: "(string \<rightharpoonup> node) \<Rightarrow> filesystem" where
  "open_fs ns = \<lparr>nodes = ns, parent_writable = (\<lambda>d. True)\<rparr>"

definition start_in :: "filesystem \<Rightarrow> world" where
  "start_in fs = \<lparr>files = fs, browser = page_cfe, calls = [], results = []\<rparr>"

definition first_run :: world where
  "first_run = start_in (open_fs [SCREENSHOT_DIR \<mapsto> empty_dir])"

definition later_run :: world where
  "later_run =
     start_in (open_fs
       [SCREENSHOT_DIR \<mapsto> empty_dir,
        BASELINES_DIR \<mapsto>
          Dir \<lparr>entries = [''05a-before-click.png'' \<mapsto> PNG img_base], writable = True\<rparr>])"

definition cached_run :: world where
  "cached_run =
     start_in (open_fs
       [SCREENSHOT_DIR \<mapsto> empty_dir,
        cacheDir \<mapsto>
          Dir \<lparr>entries = [''act-cache.json'' \<mapsto> Blob ''xpath=/html/body/a[4]''],
               writable = True\<rparr>])"

definition readonly_run :: world where
  "readonly_run =
     start_in (open_fs
       [SCREENSHOT_DIR \<mapsto> empty_dir,
        BASELINES_DIR \<mapsto> Dir \<lparr>entries = Map.empty, writable = False\<rparr>])"

text \<open>The state after the pre-action screenshot \<open>img\<close> of a run started in \<open>w\<close>.\<close>

definition captured :: "world \<Rightarrow> image \<Rightarrow> world" where
  "captured w img =
     w\<lparr>calls := calls w @ [Screenshot 0 False],
       files := (case write_capture (files w) comparisonSsPath img of
                   Inr fs \<Rightarrow> fs
                 | Inl _ \<Rightarrow> files w)\<rparr>"

section \<open>Strings, pixels and files\<close>

lemma startsWith_iff: "startsWith s sub \<longleftrightarrow> (\<exists>v. s = sub @ v)"
  by (induction s sub rule: startsWith.induct) auto

lemma str_includes_iff: "str_includes s sub \<longleftrightarrow> (\<exists>u v. s = u @ sub @ v)"
proof (induction s)
  case Nil
  then show ?case by auto
next
  case (Cons x xs)
  show ?case
  proof
    assume "str_includes (x # xs) sub"
    then consider "startsWith (x # xs) sub" | "str_includes xs sub" by auto
    then show "\<exists>u v. x # xs = u @ sub @ v"
    proof cases
      case 1
      then obtain v where "x # xs = sub @ v" by (auto simp: startsWith_iff)
      then have "x # xs = [] @ sub @ v" by simp
      then show ?thesis by blast
    next
      case 2
      then obtain u v where "xs = u @ sub @ v" using Cons.IH by auto
      then have "x # xs = (x # u) @ sub @ v" by simp
      then show ?thesis by blast
    qed
  next
    assume "\<exists>u v. x # xs = u @ sub @ v"
    then obtain u v where uv: "x # xs = u @ sub @ v" by auto
    show "str_includes (x # xs) sub"
    proof (cases u)
      case Nil
      then have "startsWith (x # xs) sub" using uv by (auto simp: startsWith_iff)
      then show ?thesis by simp
    next
      case (Cons y ys)
      then have "xs = ys @ sub @ v" using uv by simp
      then have "str_includes xs sub" using Cons.IH by blast
      then show ?thesis by simp
    qed
  qed
qed

lemma readFileSync_exists: "readFileSync fs p = Inr c \<Longrightarrow> existsSync_file fs p"
  by (auto simp: readFileSync_def existsSync_file_def split: option.splits node.splits)

lemma colorDelta_same: "colorDelta p p = 0"
  by (cases p) (auto simp: absdiff_def)

lemma pixelDiffers_same: "0 \<le> t \<Longrightarrow> \<not> pixelDiffers t p p"
  by (simp add: pixelDiffers_def colorDelta_same)

lemma pixelmatch_count_le: "fst (pixelmatch d1 d2 w h t) \<le> min (length d1) (length d2)"
  unfolding pixelmatch_def fst_conv
  by (rule order_trans[OF length_filter_le]) simp

lemma zip_same_filter: "0 \<le> t \<Longrightarrow> filter (\<lambda>(p, q). pixelDiffers t p q) (zip d d) = []"
  by (induction d) (auto simp: pixelDiffers_same)

lemma pixelmatch_same_count: "0 \<le> t \<Longrightarrow> fst (pixelmatch d d w h t) = 0"
  by (simp add: pixelmatch_def zip_same_filter)

lemma drawGrayPixel_not_diffColor: "drawGrayPixel p \<noteq> diffColor"
  by (cases p) (auto simp: diffColor_def Let_def)

lemma pixelmatch_same_diff: "0 \<le> t \<Longrightarrow> diffColor \<notin> set (snd (pixelmatch d d w h t))"
  by (induction d)
    (auto simp: pixelmatch_def pixelDiffers_same drawGrayPixel_not_diffColor
      drawGrayPixel_not_diffColor[symmetric] simp del: drawGrayPixel.simps)

lemma PNG_sync_read_Inr:
  "PNG_sync_read c = Inr img \<Longrightarrow>
     c = PNG img \<and> 0 < width img \<and> 0 < height img \<and> length (data img) = width img * height img"
  by (auto simp: PNG_sync_read_def split: content.splits if_splits)


lemma dirs_distinct:
  "SCREENSHOT_DIR \<noteq> BASELINES_DIR" "SCREENSHOT_DIR \<noteq> cacheDir" "BASELINES_DIR \<noteq> cacheDir"
  by (simp_all add: SCREENSHOT_DIR_def BASELINES_DIR_def cacheDir_def)

lemma readFileSync_cong:
  "nodes fs' (fst p) = nodes fs (fst p) \<Longrightarrow> readFileSync fs' p = readFileSync fs p"
  by (simp add: readFileSync_def)

lemma writeFileSync_other_dir:
  "writeFileSync fs p c = Inr fs' \<Longrightarrow> d \<noteq> fst p \<Longrightarrow> nodes fs' d = nodes fs d"
  by (auto simp: writeFileSync_def split: option.splits node.splits if_splits)

lemma writeFileSync_read_same: "writeFileSync fs p c = Inr fs' \<Longrightarrow> readFileSync fs' p = Inr c"
  by (auto simp: writeFileSync_def readFileSync_def split: option.splits node.splits if_splits)

lemma writeFileSync_read_other:
  "writeFileSync fs p c = Inr fs' \<Longrightarrow> q \<noteq> p \<Longrightarrow> readFileSync fs' q = readFileSync fs q"
  by (cases p; cases q)
    (auto simp: writeFileSync_def readFileSync_def split: option.splits node.splits if_splits)

lemma mkdirSync_other_dir:
  "mkdirSync fs d = Inr fs' \<Longrightarrow> d' \<noteq> d \<Longrightarrow> nodes fs' d' = nodes fs d'"
  by (auto simp: mkdirSync_def split: option.splits node.splits if_splits)

lemma mkdirSync_read: "mkdirSync fs d = Inr fs' \<Longrightarrow> readFileSync fs' q = readFileSync fs q"
  by (auto simp: mkdirSync_def readFileSync_def split: option.splits node.splits if_splits)

lemma mkdirSync_fresh:
  "mkdirSync fs d = Inr fs' \<Longrightarrow> nodes fs d = None \<Longrightarrow>
     nodes fs' d = Some (Dir \<lparr>entries = Map.empty, writable = True\<rparr>)"
  by (auto simp: mkdirSync_def split: if_splits)

lemma write_capture_other_dir:
  "write_capture fs p img = Inr fs' \<Longrightarrow> d \<noteq> fst p \<Longrightarrow> nodes fs' d = nodes fs d"
  by (auto simp: write_capture_def split: sum.splits
      dest!: mkdirSync_other_dir[where d' = d] writeFileSync_other_dir[where d = d])

lemma write_capture_read_same:
  "write_capture fs p img = Inr fs' \<Longrightarrow> readFileSync fs' p = Inr (PNG img)"
  by (auto simp: write_capture_def split: sum.splits dest: writeFileSync_read_same)

lemma write_capture_read_other:
  assumes "write_capture fs p img = Inr fs'" and "q \<noteq> p"
  shows "readFileSync fs' q = readFileSync fs q"
proof -
  obtain fs1 where m: "mkdirSync fs (fst p) = Inr fs1" and w: "writeFileSync fs1 p (PNG img) = Inr fs'"
    using assms(1) by (auto simp: write_capture_def split: sum.splits)
  show ?thesis using writeFileSync_read_other[OF w assms(2)] mkdirSync_read[OF m] by simp
qed

lemma compareWithBaseline_frame:
  assumes "compareWithBaseline fs cur bn bd dp = Inr (r, fs')"
  shows "fs' = fs \<or> (\<exists>c. writeFileSync fs dp c = Inr fs')"
  using assms
  by (auto simp: compareWithBaseline_def Let_def split: sum.splits if_splits prod.splits)

lemma compareWithBaseline_other_dir:
  "compareWithBaseline fs cur bn bd dp = Inr (r, fs') \<Longrightarrow> d \<noteq> fst dp \<Longrightarrow>
     nodes fs' d = nodes fs d"
  using compareWithBaseline_frame writeFileSync_other_dir by blast

lemma compareWithBaseline_read_other:
  "compareWithBaseline fs cur bn bd dp = Inr (r, fs') \<Longrightarrow> q \<noteq> dp \<Longrightarrow>
     readFileSync fs' q = readFileSync fs q"
  using compareWithBaseline_frame writeFileSync_read_other by blast

lemma compareWithBaseline_diff_saved:
  assumes "compareWithBaseline fs cur bn bd dp = Inr (c, fs')" and "diffSaved c"
  shows "\<exists>d. readFileSync fs' dp = Inr (PNG d)"
  using assms
  by (auto simp: compareWithBaseline_def Let_def PNG_sync_write_def
      split: sum.splits if_splits prod.splits dest: writeFileSync_read_same)

lemma compareWithBaseline_no_diff:
  assumes "compareWithBaseline fs cur bn bd dp = Inr (c, fs')" and "\<not> diffSaved c"
  shows "fs' = fs"
  using assms
  by (auto simp: compareWithBaseline_def Let_def split: sum.splits if_splits prod.splits)

lemma writeFileSync_pw:
  "writeFileSync fs p c = Inr fs' \<Longrightarrow> parent_writable fs' = parent_writable fs"
  by (auto simp: writeFileSync_def split: option.splits node.splits if_splits)

lemma mkdirSync_pw: "mkdirSync fs d = Inr fs' \<Longrightarrow> parent_writable fs' = parent_writable fs"
  by (auto simp: mkdirSync_def split: option.splits node.splits if_splits)

lemma rmSync_pw: "rmSync fs d = Inr fs' \<Longrightarrow> parent_writable fs' = parent_writable fs"
  by (auto simp: rmSync_def split: option.splits node.splits if_splits)

lemma write_capture_pw:
  "write_capture fs p img = Inr fs' \<Longrightarrow> parent_writable fs' = parent_writable fs"
  by (auto simp: write_capture_def split: sum.splits dest!: mkdirSync_pw writeFileSync_pw)

lemma compareWithBaseline_pw:
  "compareWithBaseline fs cur bn bd dp = Inr (r, fs') \<Longrightarrow>
     parent_writable fs' = parent_writable fs"
  using compareWithBaseline_frame writeFileSync_pw by blast

section \<open>The stages of Test 5: what each one changes\<close>

lemma page_screenshot_to_Inr:
  "page_screenshot_to e p f pth w = (Inr u, w1) \<Longrightarrow>
     \<exists>img fs. page_screenshot e p f (browser w) = Inr img \<and>
       write_capture (files w) pth img = Inr fs \<and>
       w1 = w\<lparr>calls := calls w @ [Screenshot p f], files := fs\<rparr>"
  by (auto simp: page_screenshot_to_def Let_def split: sum.splits)

lemma page_screenshot_to_Inl:
  "page_screenshot_to e p f pth w = (Inl err, w1) \<Longrightarrow>
     w1 = w\<lparr>calls := calls w @ [Screenshot p f]\<rparr>"
  by (auto simp: page_screenshot_to_def Let_def split: sum.splits)

lemma page_screenshot_to_frame:
  assumes "page_screenshot_to e p f pth w = (r, w1)"
  shows "acts w1 = acts w" and "results w1 = results w" and "browser w1 = browser w"
    and "d \<noteq> fst pth \<Longrightarrow> nodes (files w1) d = nodes (files w) d"
    and "q \<noteq> pth \<Longrightarrow> readFileSync (files w1) q = readFileSync (files w) q"
  using assms
  by (auto simp: page_screenshot_to_def Let_def write_capture_other_dir write_capture_read_other
      split: sum.splits)

lemma ctx_screenshot_frame:
  assumes "ctx_screenshot e dir name p w = (r, w1)"
  shows "acts w1 = acts w" and "results w1 = results w" and "browser w1 = browser w"
    and "d \<noteq> dir \<Longrightarrow> nodes (files w1) d = nodes (files w) d"
    and "q \<noteq> path_join dir (name @ ''.png'') \<Longrightarrow> readFileSync (files w1) q = readFileSync (files w) q"
proof -
  obtain r1 v1 where s1: "page_screenshot_to e p True (path_join dir (name @ ''.png'')) w = (r1, v1)"
    by fastforce
  obtain r2 v2 where s2: "page_screenshot_to e p False (path_join dir (name @ ''.png'')) v1 = (r2, v2)"
    by fastforce
  have w1: "w1 = v1 \<or> w1 = v2"
    using assms s1 s2 by (auto simp: ctx_screenshot_def Let_def split: sum.splits)
  note f1 = page_screenshot_to_frame[OF s1]
  note f2 = page_screenshot_to_frame[OF s2]
  show "acts w1 = acts w" using w1 f1(1) f2(1) by auto
  show "results w1 = results w" using w1 f1(2) f2(2) by auto
  show "browser w1 = browser w" using w1 f1(3) f2(3) by auto
  show "d \<noteq> dir \<Longrightarrow> nodes (files w1) d = nodes (files w) d"
    using w1 f1(4)[of d] f2(4)[of d] by (auto simp: path_join_def)
  show "q \<noteq> path_join dir (name @ ''.png'') \<Longrightarrow> readFileSync (files w1) q = readFileSync (files w) q"
    using w1 f1(5)[of q] f2(5)[of q] by auto
qed

lemma visualCheck_frame:
  assumes "visualCheck e pg w = (r, w1)"
  shows "calls w1 = calls w @ [Screenshot pg False]" and "results w1 = results w"
    and "browser w1 = browser w"
    and "d \<noteq> SCREENSHOT_DIR \<Longrightarrow> nodes (files w1) d = nodes (files w) d"
    and "q \<noteq> comparisonSsPath \<Longrightarrow> q \<noteq> diffPath05 \<Longrightarrow>
           readFileSync (files w1) q = readFileSync (files w) q"
proof -
  obtain r0 v where s: "page_screenshot_to e pg False comparisonSsPath w = (r0, v)"
    by fastforce
  have cv: "calls v = calls w @ [Screenshot pg False]"
    using s by (auto simp: page_screenshot_to_def Let_def split: sum.splits)
  note f = page_screenshot_to_frame[OF s]
  have k: "w1 = v \<or> (\<exists>c fs'. compareWithBaseline (files v) comparisonSsPath ''05a-before-click''
                  BASELINES_DIR diffPath05 = Inr (c, fs') \<and> w1 = v\<lparr>files := fs'\<rparr>)"
    using assms s by (auto simp: visualCheck_def split: sum.splits prod.splits)
  show "calls w1 = calls w @ [Screenshot pg False]" using k cv by auto
  show "results w1 = results w" using k f(2) by auto
  show "browser w1 = browser w" using k f(3) by auto
  show "nodes (files w1) d = nodes (files w) d" if "d \<noteq> SCREENSHOT_DIR"
  proof -
    have d: "d \<noteq> fst comparisonSsPath" "d \<noteq> fst diffPath05"
      using that by (simp_all add: comparisonSsPath_def diffPath05_def path_join_def)
    from k show ?thesis
    proof
      assume "w1 = v" then show ?thesis using f(4)[OF d(1)] by simp
    next
      assume "\<exists>c fs'. compareWithBaseline (files v) comparisonSsPath ''05a-before-click''
                  BASELINES_DIR diffPath05 = Inr (c, fs') \<and> w1 = v\<lparr>files := fs'\<rparr>"
      then obtain c fs' where c: "compareWithBaseline (files v) comparisonSsPath
          ''05a-before-click'' BASELINES_DIR diffPath05 = Inr (c, fs')"
        and w1: "w1 = v\<lparr>files := fs'\<rparr>" by blast
      show ?thesis
        using compareWithBaseline_other_dir[OF c d(2)] f(4)[OF d(1)] w1 by simp
    qed
  qed
  show "readFileSync (files w1) q = readFileSync (files w) q"
    if "q \<noteq> comparisonSsPath" "q \<noteq> diffPath05"
  proof -
    from k show ?thesis
    proof
      assume "w1 = v" then show ?thesis using f(5)[OF that(1)] by simp
    next
      assume "\<exists>c fs'. compareWithBaseline (files v) comparisonSsPath ''05a-before-click''
                  BASELINES_DIR diffPath05 = Inr (c, fs') \<and> w1 = v\<lparr>files := fs'\<rparr>"
      then obtain c fs' where c: "compareWithBaseline (files v) comparisonSsPath
          ''05a-before-click'' BASELINES_DIR diffPath05 = Inr (c, fs')"
        and w1: "w1 = v\<lparr>files := fs'\<rparr>" by blast
      show ?thesis
        using compareWithBaseline_read_other[OF c that(2)] f(5)[OF that(1)] w1 by simp
    qed
  qed
qed

lemma visualCheck_Inr:
  assumes "visualCheck e pg w = (Inr b, w1)"
  shows "\<exists>img. page_screenshot e pg False (browser w) = Inr img \<and>
           readFileSync (files w1) comparisonSsPath = Inr (PNG img)"
proof -
  obtain r0 v where s: "page_screenshot_to e pg False comparisonSsPath w = (r0, v)"
    by fastforce
  then obtain u where r0: "r0 = Inr u"
    using assms by (cases r0) (auto simp: visualCheck_def)
  obtain img fs where img: "page_screenshot e pg False (browser w) = Inr img"
    and wr: "write_capture (files w) comparisonSsPath img = Inr fs"
    and v: "v = w\<lparr>calls := calls w @ [Screenshot pg False], files := fs\<rparr>"
    using page_screenshot_to_Inr s r0 by blast
  obtain c fs' where c: "compareWithBaseline (files v) comparisonSsPath ''05a-before-click''
                  BASELINES_DIR diffPath05 = Inr (c, fs')" and w1: "w1 = v\<lparr>files := fs'\<rparr>"
    using assms s r0 by (auto simp: visualCheck_def split: sum.splits prod.splits)
  have "comparisonSsPath \<noteq> diffPath05"
    by (simp add: comparisonSsPath_def diffPath05_def path_join_def)
  then have "readFileSync fs' comparisonSsPath = readFileSync (files v) comparisonSsPath"
    using compareWithBaseline_read_other[OF c] by blast
  then show ?thesis using img v w1 write_capture_read_same[OF wr] by simp
qed

lemma actAndAssert_frame:
  assumes "actAndAssert e pg w = (r, w1)"
  shows "calls w1 = calls w @ [Act]" and "results w1 = results w" and "files w1 = files w"
  using assms by (auto simp: actAndAssert_def Let_def split: sum.splits)

lemma closePages_frame:
  "acts (closePages e ps w) = acts w \<and> results (closePages e ps w) = results w \<and>
   files (closePages e ps w) = files w"
  by (induction ps arbitrary: w) (auto simp: Let_def split: sum.splits)

lemma clearCache_other_dir:
  "clearCache fs = (r, fs') \<Longrightarrow> d \<noteq> cacheDir \<Longrightarrow> nodes fs' d = nodes fs d"
  by (auto simp: clearCache_def rmSync_def mkdirSync_def
      split: if_splits option.splits sum.splits node.splits)

lemma clearCache_cache:
  assumes "clearCache fs = (Inr u, fs')"
  shows "if existsSync fs cacheDir
         then nodes fs' cacheDir = Some (Dir \<lparr>entries = Map.empty, writable = True\<rparr>)
         else nodes fs' cacheDir = None"
  using assms
  by (auto simp: clearCache_def rmSync_def mkdirSync_def existsSync_def
      split: if_splits option.splits sum.splits node.splits)

lemma page_goto_frame:
  assumes "page_goto e w = (r, w1)"
  shows "acts w1 = acts w" and "results w1 = results w" and "files w1 = files w"
  using assms by (auto simp: page_goto_def Let_def split: sum.splits)

lemma selfHealPrepare_frame:
  assumes "selfHealPrepare e pg a w = (r, w1)"
  shows "acts w1 = acts w" and "results w1 = results w"
    and "d \<noteq> cacheDir \<Longrightarrow> nodes (files w1) d = nodes (files w) d"
proof -
  define v where "v = closePages e (filter (\<lambda>p. p \<noteq> pg) (allPages a)) w"
  obtain rc fs' where c: "clearCache (files v) = (rc, fs')" by fastforce
  have cp: "acts v = acts w" "results v = results w" "files v = files w"
    using closePages_frame[of e _ w] by (simp_all add: v_def)
  have k: "w1 = v\<lparr>files := fs'\<rparr> \<or> page_goto e (v\<lparr>files := fs'\<rparr>) = (r, w1)"
    using assms c by (auto simp: selfHealPrepare_def Let_def v_def split: sum.splits)
  have "acts w1 = acts w \<and> results w1 = results w \<and> files w1 = fs'"
    using k
  proof
    assume "w1 = v\<lparr>files := fs'\<rparr>"
    then show ?thesis using cp by simp
  next
    assume g: "page_goto e (v\<lparr>files := fs'\<rparr>) = (r, w1)"
    show ?thesis using page_goto_frame[OF g] cp by simp
  qed
  then show "acts w1 = acts w" and "results w1 = results w"
    and "d \<noteq> cacheDir \<Longrightarrow> nodes (files w1) d = nodes (files w) d"
    using clearCache_other_dir[OF c, of d] cp by simp_all
qed

lemma selfHealPrepare_cache:
  assumes "selfHealPrepare e pg a w1 = (Inr u, w2)"
  shows "if existsSync (files w1) cacheDir
         then nodes (files w2) cacheDir = Some (Dir \<lparr>entries = Map.empty, writable = True\<rparr>)
         else nodes (files w2) cacheDir = None"
proof -
  define v where "v = closePages e (filter (\<lambda>p. p \<noteq> pg) (allPages a)) w1"
  obtain rc fs' where c: "clearCache (files v) = (rc, fs')" by fastforce
  have fv: "files v = files w1" using closePages_frame[of e _ w1] by (simp add: v_def)
  have rc: "rc = Inr ()" and g: "page_goto e (v\<lparr>files := fs'\<rparr>) = (Inr u, w2)"
    using assms c by (auto simp: selfHealPrepare_def Let_def v_def split: sum.splits)
  have f2: "files w2 = fs'" using page_goto_frame(3)[OF g] by simp
  show ?thesis using clearCache_cache[of "files v" "()" fs'] c rc fv f2 by simp
qed


lemma attemptWithSelfHeal_cases:
  assumes "attemptWithSelfHeal e pg w = (r, w')"
  obtains
    (first_throws) err where "actAndAssert e pg w = (Inl err, w')" "r = Inl err"
  | (first_ok) a where "actAndAssert e pg w = (Inr a, w')" "success a" "r = Inr a"
  | (heal_throws) a w1 err where "actAndAssert e pg w = (Inr a, w1)" "\<not> success a"
      "selfHealPrepare e pg a w1 = (Inl err, w')" "r = Inl err"
  | (retry) a w1 u w2 where "actAndAssert e pg w = (Inr a, w1)" "\<not> success a"
      "selfHealPrepare e pg a w1 = (Inr u, w2)" "actAndAssert e pg w2 = (r, w')"
  using assms
  by (auto simp: attemptWithSelfHeal_def split: sum.splits prod.splits if_splits)

lemma attemptWithSelfHeal_frame:
  assumes "attemptWithSelfHeal e pg w = (r, w')"
  shows "results w' = results w"
    and "d \<noteq> cacheDir \<Longrightarrow> nodes (files w') d = nodes (files w) d"
    and "Suc (acts w) \<le> acts w'" and "acts w' \<le> acts w + 2"
proof -
  have "results w' = results w \<and> (d \<noteq> cacheDir \<longrightarrow> nodes (files w') d = nodes (files w) d) \<and>
        Suc (acts w) \<le> acts w' \<and> acts w' \<le> acts w + 2"
    using assms
  proof (cases rule: attemptWithSelfHeal_cases)
    case (first_throws err)
    then show ?thesis using actAndAssert_frame[OF first_throws(1)] by simp
  next
    case (first_ok a)
    then show ?thesis using actAndAssert_frame[OF first_ok(1)] by simp
  next
    case (heal_throws a w1 err)
    then show ?thesis
      using actAndAssert_frame[OF heal_throws(1)]
        selfHealPrepare_frame[OF heal_throws(3)] by simp
  next
    case (retry a w1 u w2)
    then show ?thesis
      using actAndAssert_frame[OF retry(1)]
        selfHealPrepare_frame[OF retry(3)]
        actAndAssert_frame[OF retry(4)] by simp
  qed
  then show "results w' = results w"
    and "d \<noteq> cacheDir \<Longrightarrow> nodes (files w') d = nodes (files w) d"
    and "Suc (acts w) \<le> acts w'" and "acts w' \<le> acts w + 2" by auto
qed


lemma newTabScreenshot_frame:
  assumes "newTabScreenshot e pg a w = (r, w')"
  shows "acts w' = acts w" and "results w' = results w"
    and "d \<noteq> SCREENSHOT_DIR \<Longrightarrow> nodes (files w') d = nodes (files w) d"
    and "q \<noteq> newTabPath \<Longrightarrow> readFileSync (files w') q = readFileSync (files w) q"
proof -
  define v where "v = w\<lparr>calls := calls w @ [WaitForLoadState (last (allPages a))]\<rparr>"
  obtain r1 v1 where s: "ctx_screenshot e SCREENSHOT_DIR ''05b-new-tab'' (last (allPages a)) v = (r1, v1)"
    by fastforce
  have k: "w' = w \<or> w' = v1"
    using assms s
    by (auto simp: newTabScreenshot_def Let_def v_def split: list.splits if_splits sum.splits prod.splits)
  note f = ctx_screenshot_frame[OF s]
  have np: "newTabPath = path_join SCREENSHOT_DIR (''05b-new-tab'' @ ''.png'')"
    by (simp add: newTabPath_def)
  show "acts w' = acts w" using k f(1) by (auto simp: v_def)
  show "results w' = results w" using k f(2) by (auto simp: v_def)
  show "d \<noteq> SCREENSHOT_DIR \<Longrightarrow> nodes (files w') d = nodes (files w) d" using k f(4)[of d] by (auto simp: v_def)
  show "q \<noteq> newTabPath \<Longrightarrow> readFileSync (files w') q = readFileSync (files w) q"
    using k f(5)[of q] unfolding np by (auto simp: v_def)
qed

lemma newTabScreenshot_same_page:
  "allPages a \<noteq> [] \<Longrightarrow> last (allPages a) = pg \<Longrightarrow> newTabScreenshot e pg a w = (Inr (), w)"
  by (auto simp: newTabScreenshot_def Let_def split: list.splits)

lemma recordOutcome_failed:
  "\<not> success a \<Longrightarrow> recordOutcome a w =
     (Inr (), w\<lparr>results := results w @
        [\<lparr>step = test5_step, passed = False, screenshot = newTabPath\<rparr>]\<rparr>)"
  by (simp add: recordOutcome_def)

lemma saveBaseline_Inr:
  assumes sb: "saveBaseline fs src name dir = (Inr p, fs')" and rd: "readFileSync fs src = Inr c"
  shows "p = path_join dir (name @ ''.png'')"
    and "readFileSync fs' (path_join dir (name @ ''.png'')) = Inr c"
    and "path_join dir (name @ ''.png'') \<noteq> src \<Longrightarrow> readFileSync fs' src = Inr c"
    and "d \<noteq> dir \<Longrightarrow> nodes fs' d = nodes fs d"
proof -
  define dest where "dest = path_join dir (name @ ''.png'')"
  obtain fs1 where m: "(if \<not> existsSync fs dir then mkdirSync fs dir else Inr fs) = Inr fs1"
    and cp: "copyFileSync fs1 src dest = Inr fs'" and p: "p = dest"
    using sb by (auto simp: saveBaseline_def Let_def dest_def split: sum.splits)
  have rd1: "readFileSync fs1 src = readFileSync fs src"
    using m mkdirSync_read[of fs dir fs1 src] by (auto split: if_splits)
  have o1: "d \<noteq> dir \<Longrightarrow> nodes fs1 d = nodes fs d"
    using m mkdirSync_other_dir[of fs dir fs1 d] by (auto split: if_splits)
  obtain c1 where c1: "readFileSync fs1 src = Inr c1" and w: "writeFileSync fs1 dest c1 = Inr fs'"
    using cp by (auto simp: copyFileSync_def split: sum.splits)
  have cc: "c1 = c" using c1 rd1 rd by simp
  show "p = path_join dir (name @ ''.png'')" using p by (simp add: dest_def)
  show "readFileSync fs' (path_join dir (name @ ''.png'')) = Inr c"
    using writeFileSync_read_same[OF w] cc by (simp add: dest_def)
  show "path_join dir (name @ ''.png'') \<noteq> src \<Longrightarrow> readFileSync fs' src = Inr c"
    using writeFileSync_read_other[OF w, of src] rd1 rd by (auto simp: dest_def)
  show "d \<noteq> dir \<Longrightarrow> nodes fs' d = nodes fs d"
    using writeFileSync_other_dir[OF w, of d] o1 by (simp add: dest_def path_join_def)
qed

lemma saveBaseline_Inl:
  assumes sb: "saveBaseline fs src name dir = (Inl err, fs')" and rd: "readFileSync fs src = Inr c"
  shows "fs' = fs"
proof (cases "existsSync fs dir")
  case True
  then show ?thesis using sb by (auto simp: saveBaseline_def Let_def split: sum.splits)
next
  case False
  then have none: "nodes fs dir = None" by (simp add: existsSync_def)
  show ?thesis
  proof (cases "mkdirSync fs dir")
    case (Inl e)
    then show ?thesis using sb False by (simp add: saveBaseline_def)
  next
    case (Inr fs1)
    have fresh: "nodes fs1 dir = Some (Dir \<lparr>entries = Map.empty, writable = True\<rparr>)"
      using mkdirSync_fresh[OF Inr none] .
    have rd1: "readFileSync fs1 src = Inr c" using mkdirSync_read[OF Inr, of src] rd by simp
    have "\<exists>fs2. copyFileSync fs1 src (path_join dir (name @ ''.png'')) = Inr fs2"
      using rd1 fresh by (simp add: copyFileSync_def writeFileSync_def path_join_def)
    then show ?thesis using sb False Inr by (auto simp: saveBaseline_def Let_def)
  qed
qed

lemma test5_cases:
  assumes "test5 e pg w = (r, w')"
  obtains
    (check_throws) err where "visualCheck e pg w = (Inl err, w')" "r = Inl err"
  | (broken) w1 where "visualCheck e pg w = (Inr True, w1)" "r = Inr ()"
      "w' = w1\<lparr>results := results w1 @
               [\<lparr>step = test5_step, passed = False, screenshot = diffPath05\<rparr>]\<rparr>"
  | (attempt_throws) w1 err where "visualCheck e pg w = (Inr False, w1)"
      "attemptWithSelfHeal e pg w1 = (Inl err, w')" "r = Inl err"
  | (tab_throws) w1 a w2 err where "visualCheck e pg w = (Inr False, w1)"
      "attemptWithSelfHeal e pg w1 = (Inr a, w2)"
      "newTabScreenshot e pg a w2 = (Inl err, w')" "r = Inl err"
  | (recorded) w1 a w2 u w3 where "visualCheck e pg w = (Inr False, w1)"
      "attemptWithSelfHeal e pg w1 = (Inr a, w2)"
      "newTabScreenshot e pg a w2 = (Inr u, w3)" "recordOutcome a w3 = (r, w')"
  using assms
  by (auto simp: test5_def split: sum.splits prod.splits if_splits)

lemma main_None: "main e pg w = (None, w') \<longleftrightarrow> test5 e pg w = (Inr (), w')"
  by (auto simp: main_def split: sum.splits prod.splits)

lemma main_Some:
  "main e pg w = (Some err, w') \<longleftrightarrow>
     (\<exists>w1. test5 e pg w = (Inl err, w1) \<and>
        w' = snd (page_screenshot_to e pg True (path_join SCREENSHOT_DIR ''error-crash.png'') w1))"
  by (auto simp: main_def split: sum.splits prod.splits)

lemma crash_handler_frame:
  assumes "w' = snd (page_screenshot_to e pg True (path_join SCREENSHOT_DIR ''error-crash.png'') w1)"
  shows "acts w' = acts w1" and "results w' = results w1"
    and "d \<noteq> SCREENSHOT_DIR \<Longrightarrow> nodes (files w') d = nodes (files w1) d"
proof -
  obtain r where s: "page_screenshot_to e pg True (path_join SCREENSHOT_DIR ''error-crash.png'') w1 = (r, w')"
    using assms by (metis prod.collapse)
  show "acts w' = acts w1" and "results w' = results w1"
    using page_screenshot_to_frame(1,2)[OF s] by auto
  show "d \<noteq> SCREENSHOT_DIR \<Longrightarrow> nodes (files w') d = nodes (files w1) d"
    using page_screenshot_to_frame(4)[OF s, of d] by (simp add: path_join_def)
qed

lemma recordOutcome_frame:
  assumes "recordOutcome a w = (r, w')"
  shows "acts w' = acts w"
  using assms
  by (auto simp: recordOutcome_def Let_def split: if_splits prod.splits sum.splits)



lemma test5_failed_attempt:
  assumes vc: "visualCheck e pg w = (Inr False, w1)"
    and at: "attemptWithSelfHeal e pg w1 = (Inr a, w2)"
    and fail: "\<not> success a"
  shows "case newTabScreenshot e pg a w2 of
           (Inr u, w3) \<Rightarrow>
             test5 e pg w = (Inr (), w3\<lparr>results := results w @
               [\<lparr>step = test5_step, passed = False, screenshot = newTabPath\<rparr>]\<rparr>)
         | (Inl err, w3) \<Rightarrow> test5 e pg w = (Inl err, w3)"
proof (cases "newTabScreenshot e pg a w2")
  case (Pair r w3)
  have res: "results w3 = results w"
    using newTabScreenshot_frame(2)[OF Pair] attemptWithSelfHeal_frame(1)[OF at]
      visualCheck_frame(2)[OF vc] by simp
  show ?thesis
    using Pair vc at fail res
    by (cases r) (simp_all add: test5_def recordOutcome_failed)
qed

lemma find_not_None: "find P xs \<noteq> None \<longleftrightarrow> (\<exists>x \<in> set xs. P x)"
  by (auto simp: find_None_iff simp del: not_None_eq)

lemma actAndAssert_Inr:
  assumes "actAndAssert e pg w = (Inr a, w')"
  shows "act e (acts w) (browser w) = Inr (browser w')"
    and "allPages a = pages (browser w')"
    and "success a \<longleftrightarrow>
           find (\<lambda>p. str_includes (url (browser w') p) ''github.com'') (pages (browser w')) \<noteq> None \<or>
           str_includes (url (browser w') pg) ''github.com''"
  using assms
  by (auto simp: actAndAssert_def Let_def split: sum.splits simp del: not_None_eq)

lemma actAndAssert_mono_Inr:
  assumes "actAndAssert_mono e w = (Inr a, w')"
  shows "act e (acts w) (browser w) = Inr (browser w')"
    and "success a \<longleftrightarrow>
           find (\<lambda>p. str_includes (url (browser w') p) ''github.com'') (pages (browser w')) \<noteq> None"
  using assms
  by (auto simp: actAndAssert_mono_def Let_def split: sum.splits simp del: not_None_eq)

lemma accepts_file_cong:
  "nodes fs' d = nodes fs d \<Longrightarrow> parent_writable fs' = parent_writable fs \<Longrightarrow>
     accepts_file fs' d = accepts_file fs d"
  by (simp add: accepts_file_def split: option.splits)

lemma saveBaseline_accepted:
  assumes "accepts_file fs dir" and rd: "readFileSync fs src = Inr c"
  shows "\<exists>fs'. saveBaseline fs src name dir = (Inr (path_join dir (name @ ''.png'')), fs')"
proof (cases "saveBaseline fs src name dir")
  case (Pair r fs')
  show ?thesis
  proof (cases r)
    case (Inr p)
    then show ?thesis using Pair saveBaseline_Inr(1)[of fs src name dir p fs' c] rd by simp
  next
    case (Inl err)
    then have same: "fs' = fs" using saveBaseline_Inl Pair rd by blast
    have False
    proof (cases "nodes fs dir")
      case None
      then have m: "mkdirSync fs dir = Inr (fs\<lparr>nodes := (nodes fs)(dir \<mapsto>
          Dir \<lparr>entries = Map.empty, writable = True\<rparr>)\<rparr>)"
        using assms(1) by (simp add: accepts_file_def mkdirSync_def)
      then show False
        using Pair Inl None same
        by (auto simp: saveBaseline_def existsSync_def Let_def split: sum.splits
            dest!: arg_cong[where f = "\<lambda>x. nodes x dir"])
    next
      case (Some n)
      then obtain dr where n: "n = Dir dr" and wr: "writable dr"
        using assms(1) by (cases n) (auto simp: accepts_file_def)
      have "\<exists>fs2. copyFileSync fs src (path_join dir (name @ ''.png'')) = Inr fs2"
        using rd Some n wr by (simp add: copyFileSync_def writeFileSync_def path_join_def)
      then show False
        using Pair Inl Some by (auto simp: saveBaseline_def existsSync_def Let_def)
    qed
    then show ?thesis ..
  qed
qed

lemma saveBaseline_refused:
  assumes "\<not> accepts_file fs dir"
  shows "\<exists>err. saveBaseline fs src name dir = (Inl err, fs)"
proof (cases "nodes fs dir")
  case None
  then show ?thesis
    using assms by (simp add: accepts_file_def saveBaseline_def existsSync_def mkdirSync_def)
next
  case (Some n)
  show ?thesis
  proof (cases n)
    case (File c)
    then show ?thesis
      using Some
      by (auto simp: saveBaseline_def existsSync_def Let_def copyFileSync_def writeFileSync_def
          path_join_def split: sum.splits)
  next
    case (Dir dr)
    then have "\<not> writable dr" using assms Some by (simp add: accepts_file_def)
    then show ?thesis
      using Some Dir
      by (auto simp: saveBaseline_def existsSync_def Let_def copyFileSync_def writeFileSync_def
          path_join_def split: sum.splits)
  qed
qed

lemma page_screenshot_to_pw:
  "page_screenshot_to e p f pth w = (r, w1) \<Longrightarrow>
     parent_writable (files w1) = parent_writable (files w)"
  by (auto simp: page_screenshot_to_def Let_def split: sum.splits dest: write_capture_pw)

lemma ctx_screenshot_pw:
  assumes "ctx_screenshot e dir name p w = (r, w1)"
  shows "parent_writable (files w1) = parent_writable (files w)"
proof -
  obtain r1 v1 where s1: "page_screenshot_to e p True (path_join dir (name @ ''.png'')) w = (r1, v1)"
    by fastforce
  obtain r2 v2 where s2: "page_screenshot_to e p False (path_join dir (name @ ''.png'')) v1 = (r2, v2)"
    by fastforce
  have "w1 = v1 \<or> w1 = v2"
    using assms s1 s2 by (auto simp: ctx_screenshot_def Let_def split: sum.splits)
  then show ?thesis using page_screenshot_to_pw[OF s1] page_screenshot_to_pw[OF s2] by auto
qed

lemma visualCheck_pw:
  assumes "visualCheck e pg w = (r, w1)"
  shows "parent_writable (files w1) = parent_writable (files w)"
proof -
  obtain r0 v where s: "page_screenshot_to e pg False comparisonSsPath w = (r0, v)"
    by fastforce
  have k: "w1 = v \<or> (\<exists>c fs'. compareWithBaseline (files v) comparisonSsPath ''05a-before-click''
                  BASELINES_DIR diffPath05 = Inr (c, fs') \<and> w1 = v\<lparr>files := fs'\<rparr>)"
    using assms s by (auto simp: visualCheck_def split: sum.splits prod.splits)
  then show ?thesis
  proof
    assume "w1 = v" then show ?thesis using page_screenshot_to_pw[OF s] by simp
  next
    assume "\<exists>c fs'. compareWithBaseline (files v) comparisonSsPath ''05a-before-click''
                  BASELINES_DIR diffPath05 = Inr (c, fs') \<and> w1 = v\<lparr>files := fs'\<rparr>"
    then obtain c fs' where c: "compareWithBaseline (files v) comparisonSsPath
        ''05a-before-click'' BASELINES_DIR diffPath05 = Inr (c, fs')"
      and w1: "w1 = v\<lparr>files := fs'\<rparr>" by blast
    show ?thesis using compareWithBaseline_pw[OF c] page_screenshot_to_pw[OF s] w1 by simp
  qed
qed

lemma clearCache_pw: "clearCache fs = (r, fs') \<Longrightarrow> parent_writable fs' = parent_writable fs"
  by (auto simp: clearCache_def split: if_splits sum.splits dest!: rmSync_pw mkdirSync_pw)

lemma selfHealPrepare_pw:
  assumes "selfHealPrepare e pg a w = (r, w1)"
  shows "parent_writable (files w1) = parent_writable (files w)"
proof -
  define v where "v = closePages e (filter (\<lambda>p. p \<noteq> pg) (allPages a)) w"
  obtain rc fs' where c: "clearCache (files v) = (rc, fs')" by fastforce
  have fv: "files v = files w" using closePages_frame[of e _ w] by (simp add: v_def)
  have k: "w1 = v\<lparr>files := fs'\<rparr> \<or> page_goto e (v\<lparr>files := fs'\<rparr>) = (r, w1)"
    using assms c by (auto simp: selfHealPrepare_def Let_def v_def split: sum.splits)
  have "files w1 = fs'"
    using k page_goto_frame(3)[of e "v\<lparr>files := fs'\<rparr>" r w1] by auto
  then show ?thesis using clearCache_pw[OF c] fv by simp
qed

lemma attemptWithSelfHeal_pw:
  assumes "attemptWithSelfHeal e pg w = (r, w')"
  shows "parent_writable (files w') = parent_writable (files w)"
  using assms
proof (cases rule: attemptWithSelfHeal_cases)
  case (first_throws err)
  then show ?thesis using actAndAssert_frame(3)[OF first_throws(1)] by simp
next
  case (first_ok a)
  then show ?thesis using actAndAssert_frame(3)[OF first_ok(1)] by simp
next
  case (heal_throws a w1 err)
  then show ?thesis
    using actAndAssert_frame(3)[OF heal_throws(1)] selfHealPrepare_pw[OF heal_throws(3)] by simp
next
  case (retry a w1 u w2)
  then show ?thesis
    using actAndAssert_frame(3)[OF retry(1)] selfHealPrepare_pw[OF retry(3)]
      actAndAssert_frame(3)[OF retry(4)] by simp
qed

lemma newTabScreenshot_pw:
  assumes "newTabScreenshot e pg a w = (r, w')"
  shows "parent_writable (files w') = parent_writable (files w)"
proof -
  define v where "v = w\<lparr>calls := calls w @ [WaitForLoadState (last (allPages a))]\<rparr>"
  obtain r1 v1 where s: "ctx_screenshot e SCREENSHOT_DIR ''05b-new-tab'' (last (allPages a)) v = (r1, v1)"
    by fastforce
  have "w' = w \<or> w' = v1"
    using assms s
    by (auto simp: newTabScreenshot_def Let_def v_def split: list.splits if_splits sum.splits prod.splits)
  then show ?thesis using ctx_screenshot_pw[OF s] by (auto simp: v_def)
qed

section \<open>The run as a whole\<close>

lemma test5_baseline:
  assumes t: "test5 e pg w = (r, w')"
  shows "if (\<exists>x. results w' = results w @ [x] \<and> passed x)
         then (if accepts_file (files w) BASELINES_DIR
               then r = Inr () \<and>
                    (\<exists>img. page_screenshot e pg False (browser w) = Inr img \<and>
                       readFileSync (files w')
                         (path_join BASELINES_DIR ''05a-before-click.png'') = Inr (PNG img) \<and>
                       readFileSync (files w') comparisonSsPath = Inr (PNG img))
               else (\<exists>err. r = Inl err) \<and>
                    nodes (files w') BASELINES_DIR = nodes (files w) BASELINES_DIR)
         else nodes (files w') BASELINES_DIR = nodes (files w) BASELINES_DIR \<and>
              (results w' = results w \<or>
               (\<exists>x. results w' = results w @ [x] \<and> \<not> passed x))"
  using t
proof (cases rule: test5_cases)
  case (check_throws err)
  then show ?thesis
    using visualCheck_frame(2)[OF check_throws(1)]
      visualCheck_frame(4)[OF check_throws(1), of BASELINES_DIR] dirs_distinct by simp
next
  case (broken w1)
  then show ?thesis
    using visualCheck_frame(2)[OF broken(1)]
      visualCheck_frame(4)[OF broken(1), of BASELINES_DIR] dirs_distinct by simp
next
  case (attempt_throws w1 err)
  then show ?thesis
    using visualCheck_frame(2)[OF attempt_throws(1)]
      visualCheck_frame(4)[OF attempt_throws(1), of BASELINES_DIR]
      attemptWithSelfHeal_frame(1)[OF attempt_throws(2)]
      attemptWithSelfHeal_frame(2)[OF attempt_throws(2), of BASELINES_DIR] dirs_distinct
    by simp
next
  case (tab_throws w1 a w2 err)
  then show ?thesis
    using visualCheck_frame(2)[OF tab_throws(1)]
      visualCheck_frame(4)[OF tab_throws(1), of BASELINES_DIR]
      attemptWithSelfHeal_frame(1)[OF tab_throws(2)]
      attemptWithSelfHeal_frame(2)[OF tab_throws(2), of BASELINES_DIR]
      newTabScreenshot_frame(2)[OF tab_throws(3)]
      newTabScreenshot_frame(3)[OF tab_throws(3), of BASELINES_DIR] dirs_distinct
    by simp
next
  case (recorded w1 a w2 u w3)
  have res3: "results w3 = results w"
    using visualCheck_frame(2)[OF recorded(1)] attemptWithSelfHeal_frame(1)[OF recorded(2)]
      newTabScreenshot_frame(2)[OF recorded(3)] by simp
  have base3: "nodes (files w3) BASELINES_DIR = nodes (files w) BASELINES_DIR"
    using visualCheck_frame(4)[OF recorded(1), of BASELINES_DIR]
      attemptWithSelfHeal_frame(2)[OF recorded(2), of BASELINES_DIR]
      newTabScreenshot_frame(3)[OF recorded(3), of BASELINES_DIR] dirs_distinct by simp
  have pw3: "parent_writable (files w3) = parent_writable (files w)"
    using visualCheck_pw[OF recorded(1)] attemptWithSelfHeal_pw[OF recorded(2)]
      newTabScreenshot_pw[OF recorded(3)] by simp
  have acc: "accepts_file (files w3) BASELINES_DIR = accepts_file (files w) BASELINES_DIR"
    using base3 pw3 by (rule accepts_file_cong)
  show ?thesis
  proof (cases "success a")
    case False
    then have "w' = w3\<lparr>results := results w3 @
        [\<lparr>step = test5_step, passed = False, screenshot = newTabPath\<rparr>]\<rparr>"
      using recorded(4) by (simp add: recordOutcome_failed)
    then show ?thesis using res3 base3 by simp
  next
    case True
    define v where "v = w3\<lparr>results := results w3 @
        [\<lparr>step = test5_step, passed = True, screenshot = newTabPath\<rparr>]\<rparr>"
    have pass: "\<exists>x. results v = results w @ [x] \<and> passed x"
      using res3 by (simp add: v_def)
    obtain img where img: "page_screenshot e pg False (browser w) = Inr img"
      and rd1: "readFileSync (files w1) comparisonSsPath = Inr (PNG img)"
      using visualCheck_Inr[OF recorded(1)] by blast
    have ne: "fst comparisonSsPath \<noteq> cacheDir" "comparisonSsPath \<noteq> newTabPath"
      "path_join BASELINES_DIR (''05a-before-click'' @ ''.png'') \<noteq> comparisonSsPath"
      using dirs_distinct by (simp_all add: comparisonSsPath_def newTabPath_def path_join_def)
    have "readFileSync (files w2) comparisonSsPath = readFileSync (files w1) comparisonSsPath"
      using attemptWithSelfHeal_frame(2)[OF recorded(2) ne(1)] by (rule readFileSync_cong)
    then have rd3: "readFileSync (files w3) comparisonSsPath = Inr (PNG img)"
      using newTabScreenshot_frame(4)[OF recorded(3) ne(2)] rd1 by simp
    show ?thesis
    proof (cases "accepts_file (files w) BASELINES_DIR")
      case yes: True
      then obtain fs' where sb: "saveBaseline (files w3) comparisonSsPath ''05a-before-click''
            BASELINES_DIR = (Inr (path_join BASELINES_DIR (''05a-before-click'' @ ''.png'')), fs')"
        using saveBaseline_accepted[OF _ rd3, of BASELINES_DIR "''05a-before-click''"] acc
        by blast
      note sbf = saveBaseline_Inr[OF sb rd3]
      have "r = Inr () \<and> w' = v\<lparr>files := fs'\<rparr>"
        using recorded(4) True sb by (simp add: recordOutcome_def Let_def v_def)
      then show ?thesis using pass yes img sbf(2) sbf(3)[OF ne(3)] by (auto simp: v_def)
    next
      case no: False
      then obtain err where sb: "saveBaseline (files w3) comparisonSsPath ''05a-before-click''
            BASELINES_DIR = (Inl err, files w3)"
        using saveBaseline_refused[of "files w3" BASELINES_DIR comparisonSsPath
            "''05a-before-click''"] acc by blast
      have "r = Inl err \<and> w' = v"
        using recorded(4) True sb by (auto simp: recordOutcome_def Let_def v_def)
      then show ?thesis using pass no base3 by (auto simp: v_def)
    qed
  qed
qed

lemma main_attempted:
  assumes vc: "visualCheck e pg w = (Inr False, w1)"
  shows "Suc (acts w) \<le> acts (snd (main e pg w))"
proof -
  obtain r w' where t: "test5 e pg w = (r, w')" by fastforce
  have a1: "acts w1 = acts w" using visualCheck_frame(1)[OF vc] by simp
  have "Suc (acts w) \<le> acts w'"
    using t
  proof (cases rule: test5_cases)
    case (attempt_throws v1 err)
    then show ?thesis using vc a1 attemptWithSelfHeal_frame(3)[OF attempt_throws(2)] by simp
  next
    case (tab_throws v1 a w2 err)
    then show ?thesis
      using vc a1 attemptWithSelfHeal_frame(3)[OF tab_throws(2)]
        newTabScreenshot_frame(1)[OF tab_throws(3)] by simp
  next
    case (recorded v1 a w2 u w3)
    then show ?thesis
      using vc a1 attemptWithSelfHeal_frame(3)[OF recorded(2)]
        newTabScreenshot_frame(1)[OF recorded(3)] recordOutcome_frame[OF recorded(4)] by simp
  qed (use vc in simp_all)
  then show ?thesis
    using t crash_handler_frame(1)[OF refl, of e pg w']
    by (cases r) (simp_all add: main_def)
qed

lemma test5_passed_attempt:
  assumes vc: "visualCheck e pg w = (Inr False, w1)"
    and at: "attemptWithSelfHeal e pg w1 = (Inr a, w2)"
    and ok: "success a"
    and nt: "newTabScreenshot e pg a w2 = (Inr u, w3)"
  shows "results (snd (main e pg w)) =
           results w @ [\<lparr>step = test5_step, passed = True, screenshot = newTabPath\<rparr>]"
proof -
  obtain r w' where ro: "recordOutcome a w3 = (r, w')" by fastforce
  then have t: "test5 e pg w = (r, w')" using vc at nt by (simp add: test5_def)
  have res3: "results w3 = results w"
    using visualCheck_frame(2)[OF vc] attemptWithSelfHeal_frame(1)[OF at]
      newTabScreenshot_frame(2)[OF nt] by simp
  have "results w' = results w3 @ [\<lparr>step = test5_step, passed = True, screenshot = newTabPath\<rparr>]"
    using ro ok by (auto simp: recordOutcome_def Let_def split: prod.splits sum.splits)
  then have res: "results w' = results w @
      [\<lparr>step = test5_step, passed = True, screenshot = newTabPath\<rparr>]"
    using res3 by simp
  show ?thesis
    using t res crash_handler_frame(2)[OF refl, of e pg w']
    by (cases r) (simp_all add: main_def)
qed
section \<open>The scripted runs, stage by stage\<close>

lemmas path_defs = comparisonSsPath_def diffPath05_def newTabPath_def path_join_def
  SCREENSHOT_DIR_def BASELINES_DIR_def cacheDir_def

lemmas start_defs = start_in_def open_fs_def empty_dir_def

lemma existsSync_file_iff: "existsSync_file fs p \<longleftrightarrow> (\<exists>c. readFileSync fs p = Inr c)"
  by (auto simp: existsSync_file_def readFileSync_def split: option.splits node.splits)

lemma write_capture_accepted:
  assumes "accepts_file fs (fst p)"
  shows "\<exists>fs'. write_capture fs p img = Inr fs'"
  using assms
  by (auto simp: accepts_file_def write_capture_def mkdirSync_def writeFileSync_def
      split: option.splits node.splits)

lemma write_capture_accepts:
  "write_capture fs p img = Inr fs' \<Longrightarrow> accepts_file fs' (fst p)"
  by (auto simp: accepts_file_def write_capture_def mkdirSync_def writeFileSync_def
      split: option.splits node.splits if_splits sum.splits)

lemma writeFileSync_accepts:
  "writeFileSync fs p c = Inr fs' \<Longrightarrow> accepts_file fs' d = accepts_file fs d"
  by (auto simp: accepts_file_def writeFileSync_def
      split: option.splits node.splits if_splits)

lemma compareWithBaseline_accepts:
  "compareWithBaseline fs cur bn bd dp = Inr (r, fs') \<Longrightarrow>
     accepts_file fs' d = accepts_file fs d"
  using compareWithBaseline_frame writeFileSync_accepts by blast

lemma visualCheck_accepts:
  assumes "visualCheck e pg w = (Inr b, w1)"
  shows "accepts_file (files w1) SCREENSHOT_DIR"
proof -
  obtain r0 v where s: "page_screenshot_to e pg False comparisonSsPath w = (r0, v)"
    by fastforce
  then obtain u where r0: "r0 = Inr u"
    using assms by (cases r0) (auto simp: visualCheck_def)
  obtain img fs where wr: "write_capture (files w) comparisonSsPath img = Inr fs"
    and v: "v = w\<lparr>calls := calls w @ [Screenshot pg False], files := fs\<rparr>"
    using page_screenshot_to_Inr s r0 by blast
  obtain c fs' where c: "compareWithBaseline (files v) comparisonSsPath ''05a-before-click''
                  BASELINES_DIR diffPath05 = Inr (c, fs')" and w1: "w1 = v\<lparr>files := fs'\<rparr>"
    using assms s r0 by (auto simp: visualCheck_def split: sum.splits prod.splits)
  have "accepts_file fs SCREENSHOT_DIR"
    using write_capture_accepts[OF wr] by (simp add: comparisonSsPath_def path_join_def)
  then show ?thesis using compareWithBaseline_accepts[OF c] v w1 by simp
qed

lemma attemptWithSelfHeal_accepts:
  assumes "attemptWithSelfHeal e pg w = (r, w')"
  shows "accepts_file (files w') SCREENSHOT_DIR = accepts_file (files w) SCREENSHOT_DIR"
  using attemptWithSelfHeal_frame(2)[OF assms, of SCREENSHOT_DIR]
    attemptWithSelfHeal_pw[OF assms] dirs_distinct
  by (intro accepts_file_cong) simp_all

lemma visualCheck_no_baseline:
  assumes cap: "page_screenshot e pg False (browser w) = Inr img"
    and wr: "write_capture (files w) comparisonSsPath img = Inr fs"
    and nb: "\<not> existsSync_file (files w) (path_join BASELINES_DIR ''05a-before-click.png'')"
  shows "visualCheck e pg w =
           (Inr False, w\<lparr>calls := calls w @ [Screenshot pg False], files := fs\<rparr>)"
proof -
  have "path_join BASELINES_DIR ''05a-before-click.png'' \<noteq> comparisonSsPath"
    by (simp add: path_defs)
  then have "\<not> existsSync_file fs (path_join BASELINES_DIR ''05a-before-click.png'')"
    using nb write_capture_read_other[OF wr] by (simp add: existsSync_file_iff)
  then show ?thesis
    using cap wr
    by (simp add: visualCheck_def page_screenshot_to_def Let_def compareWithBaseline_def)
qed

lemma script_capture: "page_screenshot (script_env b img) p f s = Inr img"
  by (simp add: script_env_def)


lemma shots_accept:
  "accepts_file (files first_run) (fst comparisonSsPath)"
  "accepts_file (files later_run) (fst comparisonSsPath)"
  "accepts_file (files cached_run) (fst comparisonSsPath)"
  "accepts_file (files readonly_run) (fst comparisonSsPath)"
  by (simp_all add: accepts_file_def first_run_def later_run_def cached_run_def
      readonly_run_def start_defs path_defs)

lemma captured_files:
  assumes "accepts_file (files w) (fst comparisonSsPath)"
  shows "write_capture (files w) comparisonSsPath img = Inr (files (captured w img))"
  using write_capture_accepted[OF assms, of img] by (auto simp: captured_def)

lemma captured_checked:
  assumes cap: "page_screenshot e 0 False (browser w) = Inr img"
    and acc: "accepts_file (files w) (fst comparisonSsPath)"
    and nb: "\<not> existsSync_file (files w) (path_join BASELINES_DIR ''05a-before-click.png'')"
  shows "visualCheck e 0 w = (Inr False, captured w img)"
proof -
  have "visualCheck e 0 w =
      (Inr False, w\<lparr>calls := calls w @ [Screenshot 0 False], files := files (captured w img)\<rparr>)"
    using visualCheck_no_baseline[OF cap captured_files[OF acc] nb] .
  moreover have "w\<lparr>calls := calls w @ [Screenshot 0 False], files := files (captured w img)\<rparr> =
      captured w img"
    by (simp add: captured_def)
  ultimately show ?thesis by simp
qed

lemma no_baseline:
  "\<not> existsSync_file (files first_run) (path_join BASELINES_DIR ''05a-before-click.png'')"
  "\<not> existsSync_file (files cached_run) (path_join BASELINES_DIR ''05a-before-click.png'')"
  "\<not> existsSync_file (files readonly_run) (path_join BASELINES_DIR ''05a-before-click.png'')"
  by (simp_all add: existsSync_file_def first_run_def cached_run_def readonly_run_def
      start_defs path_defs)

lemma first_run_checked:
  "visualCheck (script_env b img) 0 first_run = (Inr False, captured first_run img)"
  by (rule captured_checked[OF script_capture shots_accept(1) no_baseline(1)])


lemma cached_run_checked:
  "visualCheck (script_env b img) 0 cached_run = (Inr False, captured cached_run img)"
  by (rule captured_checked[OF script_capture shots_accept(3) no_baseline(2)])

lemma readonly_run_checked:
  "visualCheck (script_env b img) 0 readonly_run = (Inr False, captured readonly_run img)"
  by (rule captured_checked[OF script_capture shots_accept(4) no_baseline(3)])

lemma actAndAssert_script:
  "actAndAssert (script_env b img) pg w =
     (Inr \<lparr>success = (find (\<lambda>p. str_includes (url b p) ''github.com'') (pages b) \<noteq> None \<or>
                       str_includes (url b pg) ''github.com''),
           githubPage = (case find (\<lambda>p. str_includes (url b p) ''github.com'') (pages b) of
                           Some p \<Rightarrow> Some p
                         | None \<Rightarrow> if str_includes (url b pg) ''github.com'' then Some pg else None),
           allPages = pages b\<rparr>,
      w\<lparr>calls := calls w @ [Act], browser := b\<rparr>)"
  by (simp add: actAndAssert_def script_env_def Let_def)

lemma url_checks:
  "\<not> str_includes ''https://cfe.jp/'' ''github.com''"
  "\<not> str_includes ''https://www.slideshare.net/uzulla'' ''github.com''"
  "str_includes ''https://github.com/uzulla'' ''github.com''"
  by simp_all

lemma act_wrong:
  "actAndAssert (script_env tab_wrong img) 0 w =
     (Inr \<lparr>success = False, githubPage = None, allPages = [0, 1]\<rparr>,
      w\<lparr>calls := calls w @ [Act], browser := tab_wrong\<rparr>)"
  unfolding actAndAssert_script by (simp add: tab_wrong_def)

lemma act_stuck:
  "actAndAssert (script_env page_cfe img) 0 w =
     (Inr \<lparr>success = False, githubPage = None, allPages = [0]\<rparr>,
      w\<lparr>calls := calls w @ [Act], browser := page_cfe\<rparr>)"
  unfolding actAndAssert_script by (simp add: page_cfe_def)

lemma act_github:
  "actAndAssert (script_env tab_github img) 0 w =
     (Inr \<lparr>success = True, githubPage = Some 1, allPages = [0, 1]\<rparr>,
      w\<lparr>calls := calls w @ [Act], browser := tab_github\<rparr>)"
  unfolding actAndAssert_script by (simp add: tab_github_def)

lemma act_inplace:
  "actAndAssert (script_env inplace_github img) 0 w =
     (Inr \<lparr>success = True, githubPage = Some 0, allPages = [0]\<rparr>,
      w\<lparr>calls := calls w @ [Act], browser := inplace_github\<rparr>)"
  unfolding actAndAssert_script by (simp add: inplace_github_def)



lemma selfHealPrepare_script:
  assumes "fst (clearCache (files w)) = Inr ()"
  shows "fst (selfHealPrepare (script_env b img) pg a w) = Inr ()"
proof -
  define v where "v = closePages (script_env b img) (filter (\<lambda>p. p \<noteq> pg) (allPages a)) w"
  have fv: "files v = files w" using closePages_frame[of "script_env b img" _ w] by (simp add: v_def)
  obtain fs' where c: "clearCache (files v) = (Inr (), fs')"
    using assms fv by (metis prod.collapse)
  have g: "fst (page_goto (script_env b img) x) = Inr ()" for x
    by (simp add: page_goto_def script_env_def)
  show ?thesis
    using c g by (simp add: selfHealPrepare_def Let_def v_def[symmetric])
qed

lemma clearCache_absent: "nodes fs cacheDir = None \<Longrightarrow> clearCache fs = (Inr (), fs)"
  by (simp add: clearCache_def existsSync_def)

lemma captured_other_dir:
  assumes "accepts_file (files w) (fst comparisonSsPath)" and "d \<noteq> SCREENSHOT_DIR"
  shows "nodes (files (captured w img)) d = nodes (files w) d"
  using write_capture_other_dir[OF captured_files[OF assms(1)], of d img] assms(2)
  by (simp add: comparisonSsPath_def path_join_def)

lemma captured_pw:
  assumes "accepts_file (files w) (fst comparisonSsPath)"
  shows "parent_writable (files (captured w img)) = parent_writable (files w)"
  using write_capture_pw[OF captured_files[OF assms]] .

lemma newTabScreenshot_script:
  assumes "allPages a \<noteq> []" and "accepts_file (files w) SCREENSHOT_DIR"
  shows "fst (newTabScreenshot (script_env b img) pg a w) = Inr ()"
proof -
  obtain fs' where "write_capture (files w) (path_join SCREENSHOT_DIR ''05b-new-tab.png'') img =
      Inr fs'"
    using write_capture_accepted[of "files w" "path_join SCREENSHOT_DIR ''05b-new-tab.png''" img]
      assms(2) by (auto simp: path_join_def)
  then show ?thesis
    using assms(1)
    by (auto simp: newTabScreenshot_def ctx_screenshot_def page_screenshot_to_def script_env_def
        Let_def split: list.splits)
qed


lemma attempt_wrong:
  assumes "fst (clearCache (files w)) = Inr ()"
  shows "fst (attemptWithSelfHeal (script_env tab_wrong img) 0 w) =
     Inr \<lparr>success = False, githubPage = None, allPages = [0, 1]\<rparr>"
proof -
  obtain r w2 where sh: "selfHealPrepare (script_env tab_wrong img) 0
      \<lparr>success = False, githubPage = None, allPages = [0, 1]\<rparr>
      (w\<lparr>calls := calls w @ [Act], browser := tab_wrong\<rparr>) = (r, w2)" by fastforce
  then have "r = Inr ()"
    using selfHealPrepare_script[of "w\<lparr>calls := calls w @ [Act], browser := tab_wrong\<rparr>"
        tab_wrong img 0] assms
    by (metis fst_conv world.select_convs(1) world.surjective world.update_convs(2)
        world.update_convs(3))
  then show ?thesis using sh by (simp add: attemptWithSelfHeal_def act_wrong)
qed

lemma attempt_stuck:
  assumes "fst (clearCache (files w)) = Inr ()"
  shows "fst (attemptWithSelfHeal (script_env page_cfe img) 0 w) =
     Inr \<lparr>success = False, githubPage = None, allPages = [0]\<rparr>"
proof -
  obtain r w2 where sh: "selfHealPrepare (script_env page_cfe img) 0
      \<lparr>success = False, githubPage = None, allPages = [0]\<rparr>
      (w\<lparr>calls := calls w @ [Act], browser := page_cfe\<rparr>) = (r, w2)" by fastforce
  then have "r = Inr ()"
    using selfHealPrepare_script[of "w\<lparr>calls := calls w @ [Act], browser := page_cfe\<rparr>"
        page_cfe img 0] assms
    by (metis fst_conv world.select_convs(1) world.surjective world.update_convs(2)
        world.update_convs(3))
  then show ?thesis using sh by (simp add: attemptWithSelfHeal_def act_stuck)
qed

lemma attempt_github:
  "attemptWithSelfHeal (script_env tab_github img) 0 w =
     (Inr \<lparr>success = True, githubPage = Some 1, allPages = [0, 1]\<rparr>,
      w\<lparr>calls := calls w @ [Act], browser := tab_github\<rparr>)"
  by (simp add: attemptWithSelfHeal_def act_github)

lemma first_run_no_cache: "fst (clearCache (files (captured first_run img))) = Inr ()"
proof -
  have "nodes (files (captured first_run img)) cacheDir = nodes (files first_run) cacheDir"
    using captured_other_dir[OF shots_accept(1)] dirs_distinct by metis
  then have "nodes (files (captured first_run img)) cacheDir = None"
    by (simp add: first_run_def start_defs path_defs)
  then show ?thesis by (simp add: clearCache_absent)
qed

section \<open>Outcomes of the run, and the scripted runs as wholes\<close>

lemma visualCheck_compared:
  assumes cap: "page_screenshot e pg False (browser w) = Inr img"
    and wr: "write_capture (files w) comparisonSsPath img = Inr fs1"
    and cmp: "compareWithBaseline fs1 comparisonSsPath ''05a-before-click'' BASELINES_DIR
                diffPath05 = Inr (c, fs')"
  shows "visualCheck e pg w =
           (Inr (\<not> skipped c \<and> VISUAL_DIFF_THRESHOLD < mismatchRatio c),
            w\<lparr>calls := calls w @ [Screenshot pg False], files := fs'\<rparr>)"
  using assms by (simp add: visualCheck_def page_screenshot_to_def Let_def)


lemma main_baseline:
  assumes m: "main e pg w = (crash, w')"
  shows "if (\<exists>x. results w' = results w @ [x] \<and> passed x)
         then (if accepts_file (files w) BASELINES_DIR
               then crash = None \<and>
                    (\<exists>img. page_screenshot e pg False (browser w) = Inr img \<and>
                       readFileSync (files w')
                         (path_join BASELINES_DIR ''05a-before-click.png'') = Inr (PNG img) \<and>
                       readFileSync (files w') comparisonSsPath = Inr (PNG img))
               else crash \<noteq> None \<and>
                    nodes (files w') BASELINES_DIR = nodes (files w) BASELINES_DIR)
         else nodes (files w') BASELINES_DIR = nodes (files w) BASELINES_DIR"
proof (cases crash)
  case None
  then have t: "test5 e pg w = (Inr (), w')" using m by (simp add: main_None)
  show ?thesis using test5_baseline[OF t] None by (auto split: if_splits)
next
  case (Some err)
  then obtain w1 where t: "test5 e pg w = (Inl err, w1)"
    and w': "w' = snd (page_screenshot_to e pg True (path_join SCREENSHOT_DIR ''error-crash.png'') w1)"
    using m by (auto simp: main_Some)
  note h = crash_handler_frame[OF w']
  have res: "results w' = results w1" using h(2) .
  have base: "nodes (files w') BASELINES_DIR = nodes (files w1) BASELINES_DIR"
    using h(3)[of BASELINES_DIR] dirs_distinct by auto
  show ?thesis
    using test5_baseline[OF t] Some unfolding res base by (auto split: if_splits)
qed

lemma later_run_capture:
  "write_capture (files later_run) comparisonSsPath img = Inr (files (captured later_run img))"
  by (rule captured_files[OF shots_accept(2)])

lemma later_run_files:
  "readFileSync (files (captured later_run img)) comparisonSsPath = Inr (PNG img)"
  "readFileSync (files (captured later_run img))
     (path_join BASELINES_DIR (''05a-before-click'' @ ''.png'')) = Inr (PNG img_base)"
  "readFileSync (files (captured later_run img))
     (path_join BASELINES_DIR ''05a-before-click.png'') = Inr (PNG img_base)"
  "readFileSync (files (captured later_run img)) diffPath05 = Inl ENOENT"
proof -
  note wr = later_run_capture[of img]
  show "readFileSync (files (captured later_run img)) comparisonSsPath = Inr (PNG img)"
    using write_capture_read_same[OF wr] .
  have b: "readFileSync (files later_run) (path_join BASELINES_DIR ''05a-before-click.png'') =
      Inr (PNG img_base)"
    by (simp add: readFileSync_def later_run_def start_defs path_defs)
  have ne: "path_join BASELINES_DIR ''05a-before-click.png'' \<noteq> comparisonSsPath"
    "diffPath05 \<noteq> comparisonSsPath"
    by (simp_all add: path_defs)
  show 3: "readFileSync (files (captured later_run img))
     (path_join BASELINES_DIR ''05a-before-click.png'') = Inr (PNG img_base)"
    using write_capture_read_other[OF wr ne(1)] b by simp
  then show "readFileSync (files (captured later_run img))
     (path_join BASELINES_DIR (''05a-before-click'' @ ''.png'')) = Inr (PNG img_base)"
    by simp
  have "readFileSync (files later_run) diffPath05 = Inl ENOENT"
    by (simp add: readFileSync_def later_run_def start_defs path_defs)
  then show "readFileSync (files (captured later_run img)) diffPath05 = Inl ENOENT"
    using write_capture_read_other[OF wr ne(2)] by simp
qed

lemma later_run_exists:
  "existsSync_file (files (captured later_run img))
     (path_join BASELINES_DIR ''05a-before-click.png'')"
  using later_run_files(3)[of img] by (rule readFileSync_exists)

lemma decodes:
  "PNG_sync_read (PNG img_base) = Inr img_base"
  "PNG_sync_read (PNG img_one) = Inr img_one"
  "PNG_sync_read (PNG img_two) = Inr img_two"
  "PNG_sync_read (PNG img_tall) = Inr img_tall"
  by (simp_all add: PNG_sync_read_def img_base_def img_one_def img_two_def img_tall_def)

lemma pixelmatch_counts:
  "fst (pixelmatch (data img_one) (data img_base) 10 1 (1 / 10)) = 1"
  "fst (pixelmatch (data img_two) (data img_base) 10 1 (1 / 10)) = 2"
  by (simp_all add: pixelmatch_def img_one_def img_two_def img_base_def pixelDiffers_def
      black_def white_def absdiff_def)

lemma later_run_diff_write:
  "\<exists>fs'. writeFileSync (files (captured later_run img)) diffPath05 c = Inr fs'"
proof -
  have "accepts_file (files (captured later_run img)) (fst comparisonSsPath)"
    using write_capture_accepts[OF later_run_capture] .
  moreover have "\<exists>x. readFileSync (files (captured later_run img)) comparisonSsPath = Inr x"
    using later_run_files(1) by blast
  ultimately show ?thesis
    by (auto simp: accepts_file_def writeFileSync_def readFileSync_def path_defs
        split: option.splits node.splits)
qed

lemma later_run_tall_compare:
  "compareWithBaseline (files (captured later_run img_tall))
      comparisonSsPath ''05a-before-click'' BASELINES_DIR diffPath05 =
     Inr (\<lparr>mismatchRatio = 1, diffSaved = False, skipped = False\<rparr>,
          files (captured later_run img_tall))"
proof -
  have dims: "width img_tall = 5" "width img_base = 10"
    by (simp_all add: img_tall_def img_base_def)
  show ?thesis
    using later_run_exists[of img_tall]
    by (simp add: compareWithBaseline_def Let_def later_run_files(1,3) decodes dims)
qed

lemma later_run_same_size_compare:
  assumes "PNG_sync_read (PNG img) = Inr img" and "width img = 10" and "height img = 1"
  shows "map_sum id fst
     (compareWithBaseline (files (captured later_run img))
        comparisonSsPath ''05a-before-click'' BASELINES_DIR diffPath05) =
     Inr \<lparr>mismatchRatio = of_nat (fst (pixelmatch (data img) (data img_base) 10 1 (1 / 10))) / 10,
          diffSaved = True, skipped = False\<rparr>"
proof -
  have dims: "width img_base = 10" "height img_base = 1"
    by (simp_all add: img_base_def)
  obtain fs1 where w1: "writeFileSync (files (captured later_run img))
      diffPath05 (PNG \<lparr>width = 10, height = 1,
        data = snd (pixelmatch (data img) (data img_base) 10 1 (1 / 10))\<rparr>) = Inr fs1"
    using later_run_diff_write by blast
  show ?thesis
    using later_run_exists[of img] w1 assms
    by (simp add: compareWithBaseline_def Let_def later_run_files(1,3) decodes(1) dims
        PNG_sync_write_def split_beta)
qed

lemma later_run_one_compare:
  "map_sum id fst
     (compareWithBaseline (files (captured later_run img_one))
        comparisonSsPath ''05a-before-click'' BASELINES_DIR diffPath05) =
     Inr \<lparr>mismatchRatio = 1 / 10, diffSaved = True, skipped = False\<rparr>"
  using later_run_same_size_compare[OF decodes(2)] pixelmatch_counts(1)
  by (simp add: img_one_def)

lemma later_run_two_compare:
  "map_sum id fst
     (compareWithBaseline (files (captured later_run img_two))
        comparisonSsPath ''05a-before-click'' BASELINES_DIR diffPath05) =
     Inr \<lparr>mismatchRatio = 2 / 10, diffSaved = True, skipped = False\<rparr>"
  using later_run_same_size_compare[OF decodes(3)] pixelmatch_counts(2)
  by (simp add: img_two_def)
section \<open>The claims\<close>

subsection \<open>C1: visual regression ends the step\<close>

text \<open>
  Claim C1, as amended. Take a run of Test 5 in which the pre-action screenshot is taken
  and stored and the comparison with the baseline is not skipped. When the mismatch ratio
  is strictly above the threshold of 0.10, the step is recorded as failed with the diff
  path \<open>05a-diff.png\<close> as its artifact and the run ends there: the only call made to the
  library is the pre-action screenshot, so neither the action nor the self-heal cycle is
  invoked, and the cache and the baselines are untouched. The file at the diff path is a
  diff image when the comparison saved one; when it saved none, the file at that path is
  what it was before the run. When the ratio is at most 0.10, the value 0.10 itself
  included, the run goes on and invokes the action.
\<close>

theorem visual_regression_short_circuit:
  assumes cap: "page_screenshot e pg False (browser w) = Inr img"
    and wr: "write_capture (files w) comparisonSsPath img = Inr fs1"
    and cmp: "compareWithBaseline fs1 comparisonSsPath ''05a-before-click'' BASELINES_DIR
                diffPath05 = Inr (c, fs')"
    and ns: "\<not> skipped c"
  shows "if VISUAL_DIFF_THRESHOLD < mismatchRatio c
         then main e pg w =
                (None, w\<lparr>calls := calls w @ [Screenshot pg False], files := fs',
                         results := results w @
                           [\<lparr>step = test5_step, passed = False, screenshot = diffPath05\<rparr>]\<rparr>) \<and>
              nodes fs' cacheDir = nodes (files w) cacheDir \<and>
              nodes fs' BASELINES_DIR = nodes (files w) BASELINES_DIR \<and>
              (if diffSaved c then \<exists>d. readFileSync fs' diffPath05 = Inr (PNG d)
               else readFileSync fs' diffPath05 = readFileSync (files w) diffPath05)
         else Suc (acts w) \<le> acts (snd (main e pg w))"
proof (cases "VISUAL_DIFF_THRESHOLD < mismatchRatio c")
  case False
  then have vc: "visualCheck e pg w =
      (Inr False, w\<lparr>calls := calls w @ [Screenshot pg False], files := fs'\<rparr>)"
    using visualCheck_compared[OF cap wr cmp] by simp
  show ?thesis using main_attempted[OF vc] False by simp
next
  case True
  then have vc: "visualCheck e pg w =
      (Inr True, w\<lparr>calls := calls w @ [Screenshot pg False], files := fs'\<rparr>)"
    using visualCheck_compared[OF cap wr cmp] ns by simp
  have m: "main e pg w =
           (None, w\<lparr>calls := calls w @ [Screenshot pg False], files := fs',
                    results := results w @
                      [\<lparr>step = test5_step, passed = False, screenshot = diffPath05\<rparr>]\<rparr>)"
    using vc by (simp add: main_def test5_def)
  have "nodes fs' d = nodes (files w) d" if "d \<noteq> SCREENSHOT_DIR" for d
    using visualCheck_frame(4)[OF vc that] by simp
  then have o: "nodes fs' cacheDir = nodes (files w) cacheDir"
    "nodes fs' BASELINES_DIR = nodes (files w) BASELINES_DIR"
    using dirs_distinct by metis+
  have ne: "diffPath05 \<noteq> comparisonSsPath" by (simp add: path_defs)
  have nd: "readFileSync fs' diffPath05 = readFileSync (files w) diffPath05" if "\<not> diffSaved c"
    using compareWithBaseline_no_diff[OF cmp that] write_capture_read_other[OF wr ne] by simp
  show ?thesis
    using True m o compareWithBaseline_diff_saved[OF cmp] nd by simp
qed

text \<open>
  A later run whose screenshot differs from the baseline in two pixels of ten: ratio 0.20,
  the step fails, no action is invoked and the diff image is on disk.
\<close>

theorem visual_regression_short_circuit_witness:
  "VISUAL_DIFF_THRESHOLD < 2 / 10 \<and>
   map_sum id fst
     (compareWithBaseline (files (captured later_run img_two))
        comparisonSsPath ''05a-before-click'' BASELINES_DIR diffPath05) =
     Inr \<lparr>mismatchRatio = 2 / 10, diffSaved = True, skipped = False\<rparr> \<and>
   fst (main (script_env tab_github img_two) 0 later_run) = None \<and>
   calls (snd (main (script_env tab_github img_two) 0 later_run)) = [Screenshot 0 False] \<and>
   results (snd (main (script_env tab_github img_two) 0 later_run)) =
     [\<lparr>step = test5_step, passed = False, screenshot = diffPath05\<rparr>] \<and>
   (\<exists>d. readFileSync (files (snd (main (script_env tab_github img_two) 0 later_run))) diffPath05 =
      Inr (PNG d))"
proof -
  define c where "c = \<lparr>mismatchRatio = 2 / 10, diffSaved = True, skipped = False\<rparr>"
  obtain fs' where cmp: "compareWithBaseline (files (captured later_run img_two))
        comparisonSsPath ''05a-before-click'' BASELINES_DIR diffPath05 = Inr (c, fs')"
    using later_run_two_compare unfolding c_def
    by (cases "compareWithBaseline (files (captured later_run img_two))
        comparisonSsPath ''05a-before-click'' BASELINES_DIR diffPath05") auto
  have over: "VISUAL_DIFF_THRESHOLD < mismatchRatio c" and ns: "\<not> skipped c" and sv: "diffSaved c"
    by (simp_all add: c_def VISUAL_DIFF_THRESHOLD_def)
  note th = visual_regression_short_circuit[OF script_capture later_run_capture cmp ns,
      of tab_github 0]
  have m: "main (script_env tab_github img_two) 0 later_run =
      (None, later_run\<lparr>calls := calls later_run @ [Screenshot 0 False], files := fs',
         results := results later_run @
           [\<lparr>step = test5_step, passed = False, screenshot = diffPath05\<rparr>]\<rparr>)"
    and d: "\<exists>d. readFileSync fs' diffPath05 = Inr (PNG d)"
    using th over sv by simp_all
  have z: "calls later_run = []" "results later_run = []"
    by (simp_all add: later_run_def start_in_def)
  show ?thesis
    using m d z later_run_two_compare by (simp add: VISUAL_DIFF_THRESHOLD_def)
qed

text \<open>
  Claim C1 as stated fails twice. With "at or above the threshold": one differing pixel of
  ten gives a ratio of exactly 0.10, the comparison \<^verbatim>\<open>mismatchRatio > VISUAL_DIFF_THRESHOLD\<close>
  is false, the action is invoked and the step is recorded as passed. With "the diff image
  as its artifact": a screenshot of other dimensions than the baseline gives ratio 1 and
  \<open>diffSaved = False\<close>, the step is recorded as failed with the diff path, and no file
  exists at that path.
\<close>

theorem visual_threshold_counterexample:
  "(page_screenshot (script_env tab_github img_one) 0 False (browser later_run) = Inr img_one \<and>
    write_capture (files later_run) comparisonSsPath img_one =
      Inr (files (captured later_run img_one)) \<and>
    map_sum id fst
      (compareWithBaseline (files (captured later_run img_one))
         comparisonSsPath ''05a-before-click'' BASELINES_DIR diffPath05) =
      Inr \<lparr>mismatchRatio = 1 / 10, diffSaved = True, skipped = False\<rparr> \<and>
    VISUAL_DIFF_THRESHOLD \<le> 1 / 10 \<and>
    Act \<in> set (calls (snd (main (script_env tab_github img_one) 0 later_run))) \<and>
    results (snd (main (script_env tab_github img_one) 0 later_run)) =
      [\<lparr>step = test5_step, passed = True, screenshot = newTabPath\<rparr>]) \<and>
   (page_screenshot (script_env tab_github img_tall) 0 False (browser later_run) = Inr img_tall \<and>
    write_capture (files later_run) comparisonSsPath img_tall =
      Inr (files (captured later_run img_tall)) \<and>
    compareWithBaseline (files (captured later_run img_tall))
        comparisonSsPath ''05a-before-click'' BASELINES_DIR diffPath05 =
      Inr (\<lparr>mismatchRatio = 1, diffSaved = False, skipped = False\<rparr>,
           files (captured later_run img_tall)) \<and>
    VISUAL_DIFF_THRESHOLD \<le> 1 \<and>
    results (snd (main (script_env tab_github img_tall) 0 later_run)) =
      [\<lparr>step = test5_step, passed = False, screenshot = diffPath05\<rparr>] \<and>
    readFileSync (files (snd (main (script_env tab_github img_tall) 0 later_run))) diffPath05 =
      Inl ENOENT)"
proof -
  have z: "calls later_run = []" "results later_run = []"
    by (simp_all add: later_run_def start_in_def)
  have th: "VISUAL_DIFF_THRESHOLD \<le> 1 / 10" "VISUAL_DIFF_THRESHOLD \<le> 1"
    by (simp_all add: VISUAL_DIFF_THRESHOLD_def)

  define E where "E = script_env tab_github img_one"
  define c where "c = \<lparr>mismatchRatio = 1 / 10, diffSaved = True, skipped = False\<rparr>"
  obtain fs' where cmp: "compareWithBaseline (files (captured later_run img_one))
        comparisonSsPath ''05a-before-click'' BASELINES_DIR diffPath05 = Inr (c, fs')"
    using later_run_one_compare unfolding c_def
    by (cases "compareWithBaseline (files (captured later_run img_one))
        comparisonSsPath ''05a-before-click'' BASELINES_DIR diffPath05") auto
  define w1 where "w1 = later_run\<lparr>calls := calls later_run @ [Screenshot 0 False], files := fs'\<rparr>"
  have capE: "page_screenshot E 0 False (browser later_run) = Inr img_one"
    unfolding E_def by (rule script_capture)
  have vc: "visualCheck E 0 later_run = (Inr False, w1)"
    using visualCheck_compared[OF capE later_run_capture cmp]
    by (simp add: c_def VISUAL_DIFF_THRESHOLD_def w1_def)
  have at: "attemptWithSelfHeal E 0 w1 =
      (Inr \<lparr>success = True, githubPage = Some 1, allPages = [0, 1]\<rparr>,
       w1\<lparr>calls := calls w1 @ [Act], browser := tab_github\<rparr>)"
    unfolding E_def by (rule attempt_github)
  have acc: "accepts_file (files (w1\<lparr>calls := calls w1 @ [Act], browser := tab_github\<rparr>))
      SCREENSHOT_DIR"
    using visualCheck_accepts[OF vc] by simp
  obtain w3 where nt: "newTabScreenshot E 0
      \<lparr>success = True, githubPage = Some 1, allPages = [0, 1]\<rparr>
      (w1\<lparr>calls := calls w1 @ [Act], browser := tab_github\<rparr>) = (Inr (), w3)"
    using newTabScreenshot_script[OF _ acc,
        of "\<lparr>success = True, githubPage = Some 1, allPages = [0, 1]\<rparr>" tab_github img_one 0]
    unfolding E_def by (metis attempt.select_convs(3) list.discI prod.collapse)
  have res: "results (snd (main E 0 later_run)) =
      [\<lparr>step = test5_step, passed = True, screenshot = newTabPath\<rparr>]"
    using test5_passed_attempt[OF vc at _ nt] z by simp
  have "0 < acts (snd (main E 0 later_run))"
    using main_attempted[OF vc] by simp
  then have act: "Act \<in> set (calls (snd (main E 0 later_run)))"
    by (metis count_list_0_iff less_numeral_extra(3))
  have a: "page_screenshot E 0 False (browser later_run) = Inr img_one \<and>
    write_capture (files later_run) comparisonSsPath img_one =
      Inr (files (captured later_run img_one)) \<and>
    map_sum id fst
      (compareWithBaseline (files (captured later_run img_one))
         comparisonSsPath ''05a-before-click'' BASELINES_DIR diffPath05) =
      Inr \<lparr>mismatchRatio = 1 / 10, diffSaved = True, skipped = False\<rparr> \<and>
    VISUAL_DIFF_THRESHOLD \<le> 1 / 10 \<and>
    Act \<in> set (calls (snd (main E 0 later_run))) \<and>
    results (snd (main E 0 later_run)) =
      [\<lparr>step = test5_step, passed = True, screenshot = newTabPath\<rparr>]"
    using capE later_run_capture later_run_one_compare th(1) act res by blast

  define F where "F = script_env tab_github img_tall"
  have capF: "page_screenshot F 0 False (browser later_run) = Inr img_tall"
    unfolding F_def by (rule script_capture)
  have vcF: "visualCheck F 0 later_run =
      (Inr True, later_run\<lparr>calls := calls later_run @ [Screenshot 0 False],
         files := files (captured later_run img_tall)\<rparr>)"
    using visualCheck_compared[OF capF later_run_capture later_run_tall_compare]
    by (simp add: VISUAL_DIFF_THRESHOLD_def)
  have mF: "main F 0 later_run =
      (None, later_run\<lparr>calls := calls later_run @ [Screenshot 0 False],
         files := files (captured later_run img_tall),
         results := results later_run @
           [\<lparr>step = test5_step, passed = False, screenshot = diffPath05\<rparr>]\<rparr>)"
    using vcF by (simp add: main_def test5_def)
  have b: "page_screenshot F 0 False (browser later_run) = Inr img_tall \<and>
    write_capture (files later_run) comparisonSsPath img_tall =
      Inr (files (captured later_run img_tall)) \<and>
    compareWithBaseline (files (captured later_run img_tall))
        comparisonSsPath ''05a-before-click'' BASELINES_DIR diffPath05 =
      Inr (\<lparr>mismatchRatio = 1, diffSaved = False, skipped = False\<rparr>,
           files (captured later_run img_tall)) \<and>
    VISUAL_DIFF_THRESHOLD \<le> 1 \<and>
    results (snd (main F 0 later_run)) =
      [\<lparr>step = test5_step, passed = False, screenshot = diffPath05\<rparr>] \<and>
    readFileSync (files (snd (main F 0 later_run))) diffPath05 = Inl ENOENT"
    using capF later_run_capture later_run_tall_compare th(2) mF z later_run_files(4)
    by simp
  show ?thesis using a b unfolding E_def F_def by blast
qed

subsection \<open>C2: the self-heal cycle runs at most once\<close>




subsection \<open>C3: the verdict of an attempt\<close>

text \<open>
  Claim C3. Whenever the action returns, the attempt returns, its page list is the list
  of open pages the action left, and it declares success exactly when the URL of some
  open page, or the URL of the original page itself, contains \<open>github.com\<close>; a new tab on
  the target and a navigation of the original page in place both count. When the action
  throws, the attempt throws the same error.
\<close>

theorem actAndAssert_success_iff:
  "(\<forall>b. act e (acts w) (browser w) = Inr b \<longrightarrow>
      (\<exists>a. actAndAssert e pg w = (Inr a, w\<lparr>calls := calls w @ [Act], browser := b\<rparr>) \<and>
           allPages a = pages b \<and>
           (success a \<longleftrightarrow>
              (\<exists>p \<in> set (pages b). \<exists>u v. url b p = u @ ''github.com'' @ v) \<or>
              (\<exists>u v. url b pg = u @ ''github.com'' @ v)))) \<and>
   (\<forall>err. act e (acts w) (browser w) = Inl err \<longrightarrow>
      actAndAssert e pg w = (Inl err, w\<lparr>calls := calls w @ [Act]\<rparr>))"
proof (intro conjI allI impI)
  fix b
  assume b: "act e (acts w) (browser w) = Inr b"
  obtain a where r: "actAndAssert e pg w = (Inr a, w\<lparr>calls := calls w @ [Act], browser := b\<rparr>)"
    using b by (simp add: actAndAssert_def Let_def)
  have "allPages a = pages b"
    and "success a \<longleftrightarrow>
           (\<exists>p \<in> set (pages b). \<exists>u v. url b p = u @ ''github.com'' @ v) \<or>
           (\<exists>u v. url b pg = u @ ''github.com'' @ v)"
    using actAndAssert_Inr(2,3)[OF r]
    unfolding find_not_None str_includes_iff by simp_all
  then show "\<exists>a. actAndAssert e pg w = (Inr a, w\<lparr>calls := calls w @ [Act], browser := b\<rparr>) \<and>
           allPages a = pages b \<and>
           (success a \<longleftrightarrow>
              (\<exists>p \<in> set (pages b). \<exists>u v. url b p = u @ ''github.com'' @ v) \<or>
              (\<exists>u v. url b pg = u @ ''github.com'' @ v))"
    using r by blast
next
  fix err
  assume "act e (acts w) (browser w) = Inl err"
  then show "actAndAssert e pg w = (Inl err, w\<lparr>calls := calls w @ [Act]\<rparr>)"
    by (simp add: actAndAssert_def Let_def)
qed

text \<open>
  The attempt on three scripted outcomes: a new tab on the target, a navigation in place,
  and a new tab elsewhere.
\<close>

theorem actAndAssert_success_iff_witness:
  "(\<exists>a. actAndAssert (script_env tab_github img_base) 0 first_run =
          (Inr a, first_run\<lparr>calls := calls first_run @ [Act], browser := tab_github\<rparr>) \<and>
        success a \<and> allPages a = [0, 1]) \<and>
   (\<exists>a. actAndAssert (script_env inplace_github img_base) 0 first_run =
          (Inr a, first_run\<lparr>calls := calls first_run @ [Act], browser := inplace_github\<rparr>) \<and>
        success a \<and> allPages a = [0]) \<and>
   (\<exists>a. actAndAssert (script_env tab_wrong img_base) 0 first_run =
          (Inr a, first_run\<lparr>calls := calls first_run @ [Act], browser := tab_wrong\<rparr>) \<and>
        \<not> success a \<and> allPages a = [0, 1])"
proof -
  have act: "act (script_env b img_base) (acts first_run) (browser first_run) = Inr b" for b
    by (simp add: script_env_def)
  have gh: "\<exists>u v. ''https://github.com/uzulla'' = u @ ''github.com'' @ v"
    using url_checks(3) unfolding str_includes_iff .
  have no: "\<not> (\<exists>u v. ''https://cfe.jp/'' = u @ ''github.com'' @ v)"
    "\<not> (\<exists>u v. ''https://www.slideshare.net/uzulla'' = u @ ''github.com'' @ v)"
    using url_checks(1,2) unfolding str_includes_iff by blast+
  have 1: "\<exists>a. actAndAssert (script_env tab_github img_base) 0 first_run =
          (Inr a, first_run\<lparr>calls := calls first_run @ [Act], browser := tab_github\<rparr>) \<and>
        success a \<and> allPages a = [0, 1]"
    using actAndAssert_success_iff[of "script_env tab_github img_base" first_run 0]
      act[of tab_github] gh
    by (auto simp: tab_github_def)
  have 2: "\<exists>a. actAndAssert (script_env inplace_github img_base) 0 first_run =
          (Inr a, first_run\<lparr>calls := calls first_run @ [Act], browser := inplace_github\<rparr>) \<and>
        success a \<and> allPages a = [0]"
    using actAndAssert_success_iff[of "script_env inplace_github img_base" first_run 0]
      act[of inplace_github] gh
    by (auto simp: inplace_github_def)
  have 3: "\<exists>a. actAndAssert (script_env tab_wrong img_base) 0 first_run =
          (Inr a, first_run\<lparr>calls := calls first_run @ [Act], browser := tab_wrong\<rparr>) \<and>
        \<not> success a \<and> allPages a = [0, 1]"
    using actAndAssert_success_iff[of "script_env tab_wrong img_base" first_run 0]
      act[of tab_wrong] no
    by (auto simp: tab_wrong_def)
  show ?thesis using 1 2 3 by blast
qed

subsection \<open>C4: the baseline is written after a pass\<close>

text \<open>
  Claim C4, as amended. The baselines directory changes only in a run that has recorded
  the step as passed. In such a run, when the baselines directory accepts a file (it is a
  writable directory, or it is absent and can be created), the run does not crash and the
  baseline file of the checkpoint holds the pre-action screenshot that this run captured,
  which is also what the screenshot file holds. When the directory does not accept a file,
  \<^verbatim>\<open>saveBaseline\<close> throws after the pass has been recorded: the run crashes and the baselines
  directory is what it was. In every other run (a failed step, a visual regression, a
  crash before the record) the baselines directory is what it was before the run.
\<close>

theorem baseline_written_only_on_pass:
  assumes m: "main e pg w = (crash, w')"
  shows "if (\<exists>x. results w' = results w @ [x] \<and> passed x)
         then (if accepts_file (files w) BASELINES_DIR
               then crash = None \<and>
                    (\<exists>img. page_screenshot e pg False (browser w) = Inr img \<and>
                       readFileSync (files w')
                         (path_join BASELINES_DIR ''05a-before-click.png'') = Inr (PNG img) \<and>
                       readFileSync (files w') comparisonSsPath = Inr (PNG img))
               else crash \<noteq> None \<and>
                    nodes (files w') BASELINES_DIR = nodes (files w) BASELINES_DIR)
         else nodes (files w') BASELINES_DIR = nodes (files w) BASELINES_DIR"
  using m by (rule main_baseline)

text \<open>
  A first run that passes and stores its screenshot as the baseline, and a first run that
  fails and leaves the baselines directory absent.
\<close>

theorem baseline_written_only_on_pass_witness:
  "accepts_file (files first_run) BASELINES_DIR \<and>
   results (snd (main (script_env tab_github img_one) 0 first_run)) =
     results first_run @ [\<lparr>step = test5_step, passed = True, screenshot = newTabPath\<rparr>] \<and>
   fst (main (script_env tab_github img_one) 0 first_run) = None \<and>
   readFileSync (files (snd (main (script_env tab_github img_one) 0 first_run)))
     (path_join BASELINES_DIR ''05a-before-click.png'') = Inr (PNG img_one) \<and>
   results (snd (main (script_env tab_wrong img_one) 0 first_run)) =
     results first_run @ [\<lparr>step = test5_step, passed = False, screenshot = newTabPath\<rparr>] \<and>
   nodes (files (snd (main (script_env tab_wrong img_one) 0 first_run))) BASELINES_DIR = None"
proof -
  define E where "E = script_env tab_github img_one"
  define F where "F = script_env tab_wrong img_one"
  define w1 where "w1 = captured first_run img_one"
  have vcE: "visualCheck E 0 first_run = (Inr False, w1)"
    unfolding E_def w1_def by (rule first_run_checked)
  have vcF: "visualCheck F 0 first_run = (Inr False, w1)"
    unfolding F_def w1_def by (rule first_run_checked)
  have atE: "attemptWithSelfHeal E 0 w1 =
      (Inr \<lparr>success = True, githubPage = Some 1, allPages = [0, 1]\<rparr>,
       w1\<lparr>calls := calls w1 @ [Act], browser := tab_github\<rparr>)"
    unfolding E_def by (rule attempt_github)
  have accE: "accepts_file (files (w1\<lparr>calls := calls w1 @ [Act], browser := tab_github\<rparr>))
      SCREENSHOT_DIR"
    using visualCheck_accepts[OF vcE] by simp
  obtain w3 where ntE: "newTabScreenshot E 0
      \<lparr>success = True, githubPage = Some 1, allPages = [0, 1]\<rparr>
      (w1\<lparr>calls := calls w1 @ [Act], browser := tab_github\<rparr>) = (Inr (), w3)"
    using newTabScreenshot_script[OF _ accE,
        of "\<lparr>success = True, githubPage = Some 1, allPages = [0, 1]\<rparr>" tab_github img_one 0]
    unfolding E_def by (metis attempt.select_convs(3) list.discI prod.collapse)
  have resE: "results (snd (main E 0 first_run)) =
      results first_run @ [\<lparr>step = test5_step, passed = True, screenshot = newTabPath\<rparr>]"
    using test5_passed_attempt[OF vcE atE _ ntE] by simp
  define a where "a = \<lparr>success = False, githubPage = None, allPages = [0 :: page, 1]\<rparr>"
  define w2 where "w2 = snd (attemptWithSelfHeal F 0 w1)"
  have atF: "attemptWithSelfHeal F 0 w1 = (Inr a, w2)"
    using attempt_wrong[OF first_run_no_cache, of img_one img_one]
    unfolding F_def a_def w2_def w1_def by (metis prod.collapse)
  have fail: "\<not> success a" by (simp add: a_def)
  have accF: "accepts_file (files w2) SCREENSHOT_DIR"
    using attemptWithSelfHeal_accepts[OF atF] visualCheck_accepts[OF vcF] by simp
  obtain v3 where ntF: "newTabScreenshot F 0 a w2 = (Inr (), v3)"
    using newTabScreenshot_script[OF _ accF, of a tab_wrong img_one 0]
    unfolding F_def by (metis a_def attempt.select_convs(3) list.discI prod.collapse)
  have resF: "results (snd (main F 0 first_run)) =
      results first_run @ [\<lparr>step = test5_step, passed = False, screenshot = newTabPath\<rparr>]"
    using test5_failed_attempt[OF vcF atF fail] ntF by (simp add: main_def)
  have cap: "page_screenshot E 0 False (browser first_run) = Inr img_one"
    by (simp add: E_def script_env_def)
  have nb: "nodes (files first_run) BASELINES_DIR = None"
    by (simp add: first_run_def start_defs path_defs)
  have acc: "accepts_file (files first_run) BASELINES_DIR"
    by (simp add: accepts_file_def nb) (simp add: first_run_def start_defs)
  have pass: "fst (main E 0 first_run) = None \<and>
      readFileSync (files (snd (main E 0 first_run)))
        (path_join BASELINES_DIR ''05a-before-click.png'') = Inr (PNG img_one)"
    using baseline_written_only_on_pass[of E 0 first_run "fst (main E 0 first_run)"
        "snd (main E 0 first_run)"] resE cap acc
    by auto
  have failed: "nodes (files (snd (main F 0 first_run))) BASELINES_DIR = None"
    using baseline_written_only_on_pass[of F 0 first_run "fst (main F 0 first_run)"
        "snd (main F 0 first_run)"] resF nb
    by auto
  show ?thesis using acc resE pass resF failed unfolding E_def F_def by blast
qed

text \<open>
  Claim C4 as stated, "written if and only if the step has been declared a pass", fails:
  with a baselines directory that is not writable, the action succeeds, the step is
  recorded as passed, \<^verbatim>\<open>saveBaseline\<close> throws, and no baseline file exists after the run.
\<close>

theorem pass_without_baseline_counterexample:
  "results (snd (main (script_env tab_github img_one) 0 readonly_run)) =
     [\<lparr>step = test5_step, passed = True, screenshot = newTabPath\<rparr>] \<and>
   fst (main (script_env tab_github img_one) 0 readonly_run) \<noteq> None \<and>
   readFileSync (files (snd (main (script_env tab_github img_one) 0 readonly_run)))
     (path_join BASELINES_DIR ''05a-before-click.png'') = Inl ENOENT"
proof -
  define E where "E = script_env tab_github img_one"
  define w1 where "w1 = captured readonly_run img_one"
  have vc: "visualCheck E 0 readonly_run = (Inr False, w1)"
    unfolding E_def w1_def by (rule readonly_run_checked)
  have at: "attemptWithSelfHeal E 0 w1 =
      (Inr \<lparr>success = True, githubPage = Some 1, allPages = [0, 1]\<rparr>,
       w1\<lparr>calls := calls w1 @ [Act], browser := tab_github\<rparr>)"
    unfolding E_def by (rule attempt_github)
  have acc: "accepts_file (files (w1\<lparr>calls := calls w1 @ [Act], browser := tab_github\<rparr>))
      SCREENSHOT_DIR"
    using visualCheck_accepts[OF vc] by simp
  obtain w3 where nt: "newTabScreenshot E 0
      \<lparr>success = True, githubPage = Some 1, allPages = [0, 1]\<rparr>
      (w1\<lparr>calls := calls w1 @ [Act], browser := tab_github\<rparr>) = (Inr (), w3)"
    using newTabScreenshot_script[OF _ acc,
        of "\<lparr>success = True, githubPage = Some 1, allPages = [0, 1]\<rparr>" tab_github img_one 0]
    unfolding E_def by (metis attempt.select_convs(3) list.discI prod.collapse)
  have z: "results readonly_run = []" by (simp add: readonly_run_def start_in_def)
  have res: "results (snd (main E 0 readonly_run)) =
      results readonly_run @ [\<lparr>step = test5_step, passed = True, screenshot = newTabPath\<rparr>]"
    using test5_passed_attempt[OF vc at _ nt] by simp
  have ro: "\<not> accepts_file (files readonly_run) BASELINES_DIR"
    by (simp add: accepts_file_def readonly_run_def start_defs path_defs)
  have none: "readFileSync (files readonly_run) (path_join BASELINES_DIR ''05a-before-click.png'') =
      Inl ENOENT"
    by (simp add: readFileSync_def readonly_run_def start_defs path_defs)
  have k: "fst (main E 0 readonly_run) \<noteq> None \<and>
      nodes (files (snd (main E 0 readonly_run))) BASELINES_DIR =
        nodes (files readonly_run) BASELINES_DIR"
    using main_baseline[of E 0 readonly_run "fst (main E 0 readonly_run)"
        "snd (main E 0 readonly_run)"] res ro
    by auto
  have "readFileSync (files (snd (main E 0 readonly_run)))
      (path_join BASELINES_DIR ''05a-before-click.png'') = Inl ENOENT"
    using readFileSync_cong[of "files (snd (main E 0 readonly_run))"
        "path_join BASELINES_DIR ''05a-before-click.png''" "files readonly_run"] k none
    by (simp add: path_join_def)
  then show ?thesis using res z k unfolding E_def by simp
qed

subsection \<open>C5: the cache after the self-heal\<close>

text \<open>
  Claim C5, as amended. When the first attempt failed and the self-heal steps went
  through, the retry is made in the state those steps left. If the cache directory
  existed when it was cleared, it exists and is empty in that state and a write of any
  entry into it succeeds. If it did not exist, the guard \<^verbatim>\<open>fs.existsSync(cacheDir)\<close> skips
  the removal and the re-creation alike, and it is still absent.
\<close>

theorem cache_cleared_before_retry:
  assumes a1: "actAndAssert e pg w = (Inr a, w1)" and fail: "\<not> success a"
    and sh: "selfHealPrepare e pg a w1 = (Inr u, w2)"
  shows "attemptWithSelfHeal e pg w = actAndAssert e pg w2 \<and>
         (if existsSync (files w1) cacheDir
          then nodes (files w2) cacheDir = Some (Dir \<lparr>entries = Map.empty, writable = True\<rparr>) \<and>
               (\<forall>n c. \<exists>fs'. writeFileSync (files w2) (path_join cacheDir n) c = Inr fs')
          else nodes (files w2) cacheDir = None)"
proof -
  have "attemptWithSelfHeal e pg w = actAndAssert e pg w2"
    using a1 fail sh by (simp add: attemptWithSelfHeal_def)
  then show ?thesis
    using selfHealPrepare_cache[OF sh] by (auto simp: writeFileSync_def path_join_def)
qed

text \<open>A run whose cache directory holds an entry before the self-heal.\<close>

theorem cache_cleared_before_retry_witness:
  "existsSync (files cached_run) cacheDir \<and>
   nodes (files cached_run) cacheDir \<noteq> Some (Dir \<lparr>entries = Map.empty, writable = True\<rparr>) \<and>
   fst (selfHealPrepare (script_env tab_wrong img_base) 0
          \<lparr>success = False, githubPage = None, allPages = [0, 1]\<rparr>
          (cached_run\<lparr>calls := calls cached_run @ [Act], browser := tab_wrong\<rparr>)) = Inr () \<and>
   nodes (files (snd (selfHealPrepare (script_env tab_wrong img_base) 0
                 \<lparr>success = False, githubPage = None, allPages = [0, 1]\<rparr>
                 (cached_run\<lparr>calls := calls cached_run @ [Act], browser := tab_wrong\<rparr>))))
     cacheDir = Some (Dir \<lparr>entries = Map.empty, writable = True\<rparr>)"
proof -
  define E where "E = script_env tab_wrong img_base"
  define a where "a = \<lparr>success = False, githubPage = None, allPages = [0 :: page, 1]\<rparr>"
  define w1 where "w1 = cached_run\<lparr>calls := calls cached_run @ [Act], browser := tab_wrong\<rparr>"
  have a1: "actAndAssert E 0 cached_run = (Inr a, w1)"
    unfolding E_def a_def w1_def by (rule act_wrong)
  have fail: "\<not> success a" by (simp add: a_def)
  have cc: "fst (clearCache (files w1)) = Inr ()"
    by (simp add: w1_def cached_run_def start_defs clearCache_def existsSync_def rmSync_def
        mkdirSync_def)
  have s1: "fst (selfHealPrepare E 0 a w1) = Inr ()"
    unfolding E_def by (rule selfHealPrepare_script[OF cc])
  then have sh: "selfHealPrepare E 0 a w1 = (Inr (), snd (selfHealPrepare E 0 a w1))"
    by (metis prod.collapse)
  have ex: "existsSync (files w1) cacheDir" "existsSync (files cached_run) cacheDir"
    by (simp_all add: w1_def cached_run_def start_defs existsSync_def)
  have ne: "nodes (files cached_run) cacheDir \<noteq>
      Some (Dir \<lparr>entries = Map.empty, writable = True\<rparr>)"
    by (simp add: cached_run_def start_defs)
  show ?thesis
    using cache_cleared_before_retry[OF a1 fail sh] ex ne s1
    unfolding E_def a_def w1_def by simp
qed

text \<open>
  Claim C5 as stated, "including when the cache directory was absent", fails: in a first
  run without a cache directory the first attempt fails, the self-heal steps go through,
  and the retry is made with the cache directory still absent.
\<close>

theorem cache_absent_counterexample:
  "actAndAssert (script_env tab_wrong img_base) 0 first_run =
     (Inr \<lparr>success = False, githubPage = None, allPages = [0, 1]\<rparr>,
      first_run\<lparr>calls := calls first_run @ [Act], browser := tab_wrong\<rparr>) \<and>
   fst (selfHealPrepare (script_env tab_wrong img_base) 0
          \<lparr>success = False, githubPage = None, allPages = [0, 1]\<rparr>
          (first_run\<lparr>calls := calls first_run @ [Act], browser := tab_wrong\<rparr>)) = Inr () \<and>
   \<not> existsSync
       (files (snd (selfHealPrepare (script_env tab_wrong img_base) 0
                 \<lparr>success = False, githubPage = None, allPages = [0, 1]\<rparr>
                 (first_run\<lparr>calls := calls first_run @ [Act], browser := tab_wrong\<rparr>))))
       cacheDir \<and>
   attemptWithSelfHeal (script_env tab_wrong img_base) 0 first_run =
     actAndAssert (script_env tab_wrong img_base) 0
       (snd (selfHealPrepare (script_env tab_wrong img_base) 0
               \<lparr>success = False, githubPage = None, allPages = [0, 1]\<rparr>
               (first_run\<lparr>calls := calls first_run @ [Act], browser := tab_wrong\<rparr>)))"
proof -
  define E where "E = script_env tab_wrong img_base"
  define a where "a = \<lparr>success = False, githubPage = None, allPages = [0 :: page, 1]\<rparr>"
  define w1 where "w1 = first_run\<lparr>calls := calls first_run @ [Act], browser := tab_wrong\<rparr>"
  have a1: "actAndAssert E 0 first_run = (Inr a, w1)"
    unfolding E_def a_def w1_def by (rule act_wrong)
  have none: "nodes (files w1) cacheDir = None"
    by (simp add: w1_def first_run_def start_defs path_defs)
  have s1: "fst (selfHealPrepare E 0 a w1) = Inr ()"
    unfolding E_def by (rule selfHealPrepare_script) (simp add: clearCache_absent[OF none])
  then have sh: "selfHealPrepare E 0 a w1 = (Inr (), snd (selfHealPrepare E 0 a w1))"
    by (metis prod.collapse)
  have nex: "\<not> existsSync (files w1) cacheDir"
    using none by (simp add: existsSync_def)
  have gone: "\<not> existsSync (files (snd (selfHealPrepare E 0 a w1))) cacheDir"
    using selfHealPrepare_cache[OF sh] nex by (simp add: existsSync_def)
  have fail: "\<not> success a" by (simp add: a_def)
  have retry: "attemptWithSelfHeal E 0 first_run =
      actAndAssert E 0 (snd (selfHealPrepare E 0 a w1))"
    using a1 s1 fail by (auto simp: attemptWithSelfHeal_def split: prod.splits sum.splits)
  show ?thesis using a1 s1 gone retry unfolding E_def a_def w1_def by blast
qed

subsection \<open>C6: a comparison without a baseline is skipped\<close>

text \<open>
  Claim C6. \<^verbatim>\<open>compareWithBaseline\<close> answers \<open>skipped = True\<close> exactly when no baseline
  file exists for the checkpoint name: without a baseline it returns the skipped result
  (mismatch ratio 0, no diff saved, file system untouched), and every result it returns
  with a baseline present is not skipped. A skipped result never carries a non-zero
  mismatch ratio.
\<close>

theorem compareWithBaseline_skipped_iff:
  "(\<not> existsSync_file fs (path_join baselinesDir (baselineName @ ''.png'')) \<longrightarrow>
      compareWithBaseline fs currentPath baselineName baselinesDir diffPath =
        Inr (\<lparr>mismatchRatio = 0, diffSaved = False, skipped = True\<rparr>, fs)) \<and>
   (\<forall>r fs'. compareWithBaseline fs currentPath baselineName baselinesDir diffPath = Inr (r, fs') \<longrightarrow>
      (skipped r \<longleftrightarrow> \<not> existsSync_file fs (path_join baselinesDir (baselineName @ ''.png''))) \<and>
      (skipped r \<longrightarrow> mismatchRatio r = 0 \<and> \<not> diffSaved r))"
  by (auto simp: compareWithBaseline_def Let_def split: sum.splits if_splits prod.splits)

theorem compareWithBaseline_skipped_iff_witness:
  "\<not> existsSync_file (files first_run) (path_join BASELINES_DIR (''05a-before-click'' @ ''.png'')) \<and>
   compareWithBaseline (files first_run) comparisonSsPath ''05a-before-click'' BASELINES_DIR
       diffPath05 =
     Inr (\<lparr>mismatchRatio = 0, diffSaved = False, skipped = True\<rparr>, files first_run)"
  using compareWithBaseline_skipped_iff[of "files first_run" BASELINES_DIR "''05a-before-click''"
      comparisonSsPath diffPath05] no_baseline(1)
  by simp

subsection \<open>C7: images of different dimensions\<close>

text \<open>
  Claim C7. For two decodable images whose widths or heights differ, the comparison
  returns mismatch ratio 1, not skipped, no diff saved, and the file system is the one it
  was given: no diff artifact is written.
\<close>

theorem compareWithBaseline_size_mismatch:
  assumes "readFileSync fs currentPath = Inr c1" and "PNG_sync_read c1 = Inr img1"
    and "readFileSync fs (path_join baselinesDir (baselineName @ ''.png'')) = Inr c2"
    and "PNG_sync_read c2 = Inr img2"
    and "width img1 \<noteq> width img2 \<or> height img1 \<noteq> height img2"
  shows "compareWithBaseline fs currentPath baselineName baselinesDir diffPath =
           Inr (\<lparr>mismatchRatio = 1, diffSaved = False, skipped = False\<rparr>, fs)"
  using assms readFileSync_exists[OF assms(3)]
  by (auto simp: compareWithBaseline_def Let_def)

theorem compareWithBaseline_size_mismatch_witness:
  "width img_tall \<noteq> width img_base \<and>
   compareWithBaseline (files (captured later_run img_tall))
       comparisonSsPath ''05a-before-click'' BASELINES_DIR diffPath05 =
     Inr (\<lparr>mismatchRatio = 1, diffSaved = False, skipped = False\<rparr>,
          files (captured later_run img_tall))"
  using compareWithBaseline_size_mismatch[of "files (captured later_run img_tall)"
      comparisonSsPath "PNG img_tall" img_tall BASELINES_DIR "''05a-before-click''"
      "PNG img_base" img_base diffPath05]
    later_run_files(1,2)[of img_tall] decodes
  by (simp add: img_tall_def img_base_def)

subsection \<open>C8: images of equal dimensions\<close>

text \<open>
  Claim C8. For two decodable images of equal dimensions the comparison writes the diff
  image and returns, as its mismatch ratio, the number of differing pixels over the
  number of pixels (it throws only when the diff file cannot be written); the ratio is a
  function of the two images alone and lies between 0 and 1. For two identical images
  the ratio is 0 and the diff image has no highlighted pixel.
\<close>

theorem compareWithBaseline_equal_size:
  assumes "readFileSync fs currentPath = Inr c1" and "PNG_sync_read c1 = Inr img1"
    and "readFileSync fs (path_join baselinesDir (baselineName @ ''.png'')) = Inr c2"
    and "PNG_sync_read c2 = Inr img2"
    and "width img1 = width img2" and "height img1 = height img2"
  defines "pm \<equiv> pixelmatch (data img1) (data img2) (width img1) (height img1) (1 / 10)"
  defines "ratio \<equiv> of_nat (fst pm) / of_nat (width img1 * height img1)"
  shows "(case writeFileSync fs diffPath
                 (PNG \<lparr>width = width img1, height = height img1, data = snd pm\<rparr>) of
            Inl e \<Rightarrow> compareWithBaseline fs currentPath baselineName baselinesDir diffPath = Inl e
          | Inr fs' \<Rightarrow>
              compareWithBaseline fs currentPath baselineName baselinesDir diffPath =
                Inr (\<lparr>mismatchRatio = ratio, diffSaved = True, skipped = False\<rparr>, fs')) \<and>
         0 \<le> ratio \<and> ratio \<le> 1 \<and>
         (img1 = img2 \<longrightarrow> ratio = 0 \<and> diffColor \<notin> set (snd pm))"
proof -
  note d1 = PNG_sync_read_Inr[OF assms(2)]
  note d2 = PNG_sync_read_Inr[OF assms(4)]
  have cmp: "case writeFileSync fs diffPath
                 (PNG \<lparr>width = width img1, height = height img1, data = snd pm\<rparr>) of
            Inl e \<Rightarrow> compareWithBaseline fs currentPath baselineName baselinesDir diffPath = Inl e
          | Inr fs' \<Rightarrow>
              compareWithBaseline fs currentPath baselineName baselinesDir diffPath =
                Inr (\<lparr>mismatchRatio = ratio, diffSaved = True, skipped = False\<rparr>, fs')"
    using assms(1-6) readFileSync_exists[OF assms(3)]
    by (auto simp: compareWithBaseline_def Let_def pm_def ratio_def PNG_sync_write_def
        split: sum.splits prod.splits)
  have le: "fst pm \<le> width img1 * height img1"
    using pixelmatch_count_le[of "data img1" "data img2" "width img1" "height img1" "1 / 10"] d1
    by (simp add: pm_def)
  have pos: "0 < width img1 * height img1" using d1 by simp
  have r0: "0 \<le> ratio" by (simp add: ratio_def)
  have r1: "ratio \<le> 1"
    using le pos unfolding ratio_def
    by (metis divide_le_eq_1_pos of_nat_0_less_iff of_nat_le_iff)
  have same: "img1 = img2 \<longrightarrow> ratio = 0 \<and> diffColor \<notin> set (snd pm)"
    by (auto simp: ratio_def pm_def pixelmatch_same_count pixelmatch_same_diff)
  show ?thesis using cmp r0 r1 same by blast
qed

theorem compareWithBaseline_equal_size_witness:
  "map_sum id (\<lambda>r. mismatchRatio (fst r))
     (compareWithBaseline (files (captured later_run img_one))
        comparisonSsPath ''05a-before-click'' BASELINES_DIR diffPath05) = Inr (1 / 10) \<and>
   map_sum id (\<lambda>r. mismatchRatio (fst r))
     (compareWithBaseline (files (captured later_run img_base))
        comparisonSsPath ''05a-before-click'' BASELINES_DIR diffPath05) = Inr 0"
proof -
  have dims: "width img_one = width img_base" "height img_one = height img_base"
    "width img_one * height img_one = 10" "width img_base * height img_base = 10"
    by (simp_all add: img_one_def img_base_def)
  have pm: "fst (pixelmatch (data img_one) (data img_base) (width img_one) (height img_one)
              (1 / 10)) = 1"
    using pixelmatch_counts(1) by (simp add: img_one_def)
  obtain fs1 where w1: "writeFileSync (files (captured later_run img_one))
      diffPath05 (PNG \<lparr>width = width img_one, height = height img_one,
        data = snd (pixelmatch (data img_one) (data img_base) (width img_one) (height img_one)
          (1 / 10))\<rparr>) = Inr fs1"
    using later_run_diff_write by blast
  obtain fs2 where w2: "writeFileSync (files (captured later_run img_base))
      diffPath05 (PNG \<lparr>width = width img_base, height = height img_base,
        data = snd (pixelmatch (data img_base) (data img_base) (width img_base) (height img_base)
          (1 / 10))\<rparr>) = Inr fs2"
    using later_run_diff_write by blast
  have c1: "compareWithBaseline (files (captured later_run img_one))
        comparisonSsPath ''05a-before-click'' BASELINES_DIR diffPath05 =
      Inr (\<lparr>mismatchRatio = 1 / 10, diffSaved = True, skipped = False\<rparr>, fs1)"
    using compareWithBaseline_equal_size[OF later_run_files(1)[of img_one] decodes(2)
        later_run_files(2)[of img_one] decodes(1) dims(1,2), of diffPath05] w1 pm dims(3)
    by simp
  have c2: "compareWithBaseline (files (captured later_run img_base))
        comparisonSsPath ''05a-before-click'' BASELINES_DIR diffPath05 =
      Inr (\<lparr>mismatchRatio = 0, diffSaved = True, skipped = False\<rparr>, fs2)"
    using compareWithBaseline_equal_size[OF later_run_files(1)[of img_base] decodes(1)
        later_run_files(2)[of img_base] decodes(1) refl refl, of diffPath05] w2
    by simp
  show ?thesis using c1 c2 by simp
qed

subsection \<open>C9: the two versions of the attempt\<close>

text \<open>
  Claim C9. When the original page is among the open pages after the action, the
  monolithic and the refactored attempt give the same verdict (and throw alike when the
  action throws): the check for a navigation in place does not change it.
\<close>

theorem actAndAssert_mono_same_verdict:
  assumes "\<forall>b. act e (acts w) (browser w) = Inr b \<longrightarrow> pg \<in> set (pages b)"
  shows "map_sum id success (fst (actAndAssert e pg w)) =
         map_sum id success (fst (actAndAssert_mono e w))"
proof (cases "act e (acts w) (browser w)")
  case (Inl err)
  then show ?thesis by (simp add: actAndAssert_def actAndAssert_mono_def)
next
  case (Inr b)
  then have mem: "pg \<in> set (pages b)" using assms by simp
  obtain a w1 where r: "actAndAssert e pg w = (Inr a, w1)"
    using Inr by (simp add: actAndAssert_def Let_def)
  obtain a' w1' where m: "actAndAssert_mono e w = (Inr a', w1')"
    using Inr by (simp add: actAndAssert_mono_def Let_def)
  have b1: "browser w1 = b" using actAndAssert_Inr(1)[OF r] Inr by simp
  have b2: "browser w1' = b" using actAndAssert_mono_Inr(1)[OF m] Inr by simp
  have "success a = success a'"
    using actAndAssert_Inr(3)[OF r] actAndAssert_mono_Inr(2)[OF m] mem
    unfolding b1 b2 find_not_None by auto
  then show ?thesis using r m by simp
qed

theorem actAndAssert_mono_same_verdict_witness:
  "0 \<in> set (pages inplace_github) \<and>
   map_sum id success (fst (actAndAssert (script_env inplace_github img_base) 0 first_run)) =
     Inr True \<and>
   map_sum id success (fst (actAndAssert_mono (script_env inplace_github img_base) first_run)) =
     Inr True"
proof -
  have h: "\<forall>b. act (script_env inplace_github img_base) (acts first_run) (browser first_run) = Inr b
             \<longrightarrow> 0 \<in> set (pages b)"
    by (simp add: script_env_def inplace_github_def)
  show ?thesis
    using actAndAssert_mono_same_verdict[OF h] act_inplace[of img_base first_run] by (simp add: inplace_github_def)
qed

subsection \<open>C10: the artifact of a failed step\<close>

text \<open>
  Claim C10. In a run whose final attempt failed verification, the record of the step,
  when the run makes one, is a failure carrying the path \<open>05b-new-tab.png\<close>. When moreover
  the last open page is the original page, the run does nothing after the attempts but
  append that record: no screenshot is taken, and the file at that path is what it was
  before the run (absent, when it was absent).
\<close>

theorem failed_artifact_never_captured:
  assumes vc: "visualCheck e pg w = (Inr False, w1)"
    and at: "attemptWithSelfHeal e pg w1 = (Inr a, w2)"
    and fail: "\<not> success a"
  shows "(\<forall>w'. main e pg w = (None, w') \<longrightarrow>
            results w' = results w @
              [\<lparr>step = test5_step, passed = False, screenshot = newTabPath\<rparr>]) \<and>
         (allPages a \<noteq> [] \<and> last (allPages a) = pg \<longrightarrow>
            main e pg w = (None, w2\<lparr>results := results w @
              [\<lparr>step = test5_step, passed = False, screenshot = newTabPath\<rparr>]\<rparr>) \<and>
            readFileSync (files w2) newTabPath = readFileSync (files w) newTabPath)"
proof (intro conjI allI impI)
  fix w'
  assume m: "main e pg w = (None, w')"
  note t = test5_failed_attempt[OF vc at fail]
  obtain r w3 where nt: "newTabScreenshot e pg a w2 = (r, w3)" by fastforce
  show "results w' = results w @
              [\<lparr>step = test5_step, passed = False, screenshot = newTabPath\<rparr>]"
    using t nt m by (cases r) (auto simp: main_None)
next
  assume same: "allPages a \<noteq> [] \<and> last (allPages a) = pg"
  then have nt: "newTabScreenshot e pg a w2 = (Inr (), w2)"
    using newTabScreenshot_same_page by blast
  show "main e pg w = (None, w2\<lparr>results := results w @
              [\<lparr>step = test5_step, passed = False, screenshot = newTabPath\<rparr>]\<rparr>)"
    using test5_failed_attempt[OF vc at fail] nt by (simp add: main_None)
next
  assume same: "allPages a \<noteq> [] \<and> last (allPages a) = pg"
  have np: "newTabPath \<noteq> comparisonSsPath" "newTabPath \<noteq> diffPath05"
    "fst newTabPath \<noteq> cacheDir"
    by (simp_all add: newTabPath_def comparisonSsPath_def diffPath05_def path_join_def
        dirs_distinct)
  have "readFileSync (files w2) newTabPath = readFileSync (files w1) newTabPath"
    using attemptWithSelfHeal_frame(2)[OF at np(3)] by (rule readFileSync_cong)
  then show "readFileSync (files w2) newTabPath = readFileSync (files w) newTabPath"
    using visualCheck_frame(5)[OF vc np(1,2)] by simp
qed

theorem failed_artifact_never_captured_witness:
  "main (script_env page_cfe img_base) 0 first_run =
     (None, (snd (attemptWithSelfHeal (script_env page_cfe img_base) 0
                    (captured first_run img_base)))
              \<lparr>results := [\<lparr>step = test5_step, passed = False, screenshot = newTabPath\<rparr>]\<rparr>) \<and>
   readFileSync (files (snd (main (script_env page_cfe img_base) 0 first_run))) newTabPath =
     Inl ENOENT"
proof -
  define E where "E = script_env page_cfe img_base"
  define a where "a = \<lparr>success = False, githubPage = None, allPages = [0 :: page]\<rparr>"
  define w2 where "w2 = snd (attemptWithSelfHeal E 0 (captured first_run img_base))"
  have vc: "visualCheck E 0 first_run = (Inr False, captured first_run img_base)"
    unfolding E_def by (rule first_run_checked)
  have at: "attemptWithSelfHeal E 0 (captured first_run img_base) = (Inr a, w2)"
    using attempt_stuck[OF first_run_no_cache, of img_base img_base]
    unfolding E_def a_def w2_def by (metis prod.collapse)
  have fail: "\<not> success a" by (simp add: a_def)
  have same: "allPages a \<noteq> [] \<and> last (allPages a) = 0" by (simp add: a_def)
  have absent: "readFileSync (files first_run) newTabPath = Inl ENOENT"
    by (simp add: readFileSync_def first_run_def start_defs path_defs)
  have z: "results first_run = []" by (simp add: first_run_def start_in_def)
  note th = failed_artifact_never_captured[OF vc at fail]
  have m: "main E 0 first_run = (None, w2\<lparr>results := results first_run @
              [\<lparr>step = test5_step, passed = False, screenshot = newTabPath\<rparr>]\<rparr>)"
    and r: "readFileSync (files w2) newTabPath = readFileSync (files first_run) newTabPath"
    using th same by blast+
  show ?thesis using m r absent z unfolding E_def w2_def by simp
qed

end
